theory Spec2Isabelle
  imports Complex_Main "HOL-Library.Product_Lexorder" "HOL-Library.AList" "HOL-Library.Log_Nat"
begin

section \<open>Common values\<close>

text \<open>The Python exceptions that the modelled functions can raise.\<close>

datatype error = ValueError | IndexError | ZeroDivisionError

text \<open>
  A NumPy float64 score. Finite values are idealised as reals (rounding and overflow are
  not modelled); the three non-finite values are kept apart, since the peeling engines
  start from \<open>-np.inf\<close> and a NumPy division by zero yields an infinity or NaN.
\<close>

datatype npfloat = NegInf | Fin real | PosInf | NaN

fun np_lt :: "npfloat \<Rightarrow> npfloat \<Rightarrow> bool" where
  "np_lt NaN _ = False"
| "np_lt _ NaN = False"
| "np_lt (Fin a) (Fin b) = (a < b)"
| "np_lt NegInf NegInf = False"
| "np_lt NegInf _ = True"
| "np_lt _ NegInf = False"
| "np_lt PosInf _ = False"
| "np_lt _ PosInf = True"

fun np_le :: "npfloat \<Rightarrow> npfloat \<Rightarrow> bool" where
  "np_le NaN _ = False"
| "np_le _ NaN = False"
| "np_le (Fin a) (Fin b) = (a \<le> b)"
| "np_le NegInf _ = True"
| "np_le _ PosInf = True"
| "np_le _ NegInf = False"
| "np_le PosInf _ = False"

text \<open>\<open>num / den\<close> on NumPy floats: a zero denominator gives a signed infinity or NaN.\<close>

definition np_div :: "real \<Rightarrow> real \<Rightarrow> npfloat" where
  "np_div num den =
     (if den \<noteq> 0 then Fin (num / den)
      else if 0 < num then PosInf
      else if num < 0 then NegInf
      else NaN)"

section \<open>Graph model (utils/graph.py)\<close>

text \<open>
  The fields of class \<open>Graph\<close>; \<open>n\<close> and \<open>m\<close> are written \<open>gn\<close> and \<open>gm\<close>.
  \<open>node_weights\<close> carries the leading \<open>0.0\<close> that the loader puts in front.
\<close>

record Graph =
  gn :: int
  gm :: int
  node_weights :: "real list"
  edges :: "(int \<times> int \<times> real) list"

text \<open>\<open>str.split()\<close>: the maximal runs of non-whitespace characters (ASCII whitespace).\<close>

definition is_space :: "char \<Rightarrow> bool" where
  "is_space c \<longleftrightarrow> c \<in> set [CHR '' '', CHR 0x09, CHR 0x0A, CHR 0x0B, CHR 0x0C, CHR 0x0D,
                             CHR 0x1C, CHR 0x1D, CHR 0x1E, CHR 0x1F]"

fun split_acc :: "string \<Rightarrow> string \<Rightarrow> string list" where
  "split_acc tok [] = (if tok = [] then [] else [tok])"
| "split_acc tok (c # cs) =
     (if is_space c then (if tok = [] then split_acc [] cs else tok # split_acc [] cs)
      else split_acc (tok @ [c]) cs)"

definition split :: "string \<Rightarrow> string list" where
  "split s = split_acc [] s"

text \<open>
  A file is the list of its lines; \<open>f.readline()\<close> returns the next line and, at the end
  of the file, the empty string.
\<close>

definition readline :: "string list \<Rightarrow> string \<times> string list" where
  "readline ls = (case ls of [] \<Rightarrow> ([], []) | l # rest \<Rightarrow> (l, rest))"

text \<open>
  The loop \<open>for _ in range(self.m)\<close> of \<open>load_from_file\<close>. The built-ins \<open>int\<close> and
  \<open>float\<close> are parameters: \<open>None\<close> is their \<open>ValueError\<close>.
\<close>

fun read_edges ::
  "(string \<Rightarrow> int option) \<Rightarrow> (string \<Rightarrow> real option) \<Rightarrow> nat \<Rightarrow> string list
     \<Rightarrow> error + (int \<times> int \<times> real) list" where
  "read_edges pint pfloat 0 ls = Inr []"
| "read_edges pint pfloat (Suc k) ls =
     (let (l, rest) = readline ls in
      case split l of
        [u, v, w] \<Rightarrow>
          (case (pint u, pint v, pfloat w) of
             (Some a, Some b, Some c) \<Rightarrow>
               (case read_edges pint pfloat k rest of
                  Inl e \<Rightarrow> Inl e
                | Inr es \<Rightarrow> Inr ((a, b, c) # es))
           | _ \<Rightarrow> Inl ValueError)
      | _ \<Rightarrow> Inl ValueError)"

definition load_from_file ::
  "(string \<Rightarrow> int option) \<Rightarrow> (string \<Rightarrow> real option) \<Rightarrow> string list \<Rightarrow> error + Graph" where
  "load_from_file pint pfloat ls =
     (let (l1, r1) = readline ls in
      case those (map pint (split l1)) of
        Some [n, m] \<Rightarrow>
          (let (l2, r2) = readline r1 in
           case those (map pfloat (split l2)) of
             None \<Rightarrow> Inl ValueError
           | Some ws \<Rightarrow>
               (let nw = 0 # ws in
                if int (length nw) \<noteq> n + 1 then Inl ValueError
                else (case read_edges pint pfloat (nat m) r2 of
                        Inl e \<Rightarrow> Inl e
                      | Inr es \<Rightarrow> Inr \<lparr>gn = n, gm = m, node_weights = nw, edges = es\<rparr>)))
      | _ \<Rightarrow> Inl ValueError)"

text \<open>
  Decimal instances of the two built-ins, used to run the loader on concrete files: an
  optional sign and digits, and for \<open>float\<close> an optional fraction part.
\<close>

definition digit_val :: "char \<Rightarrow> nat option" where
  "digit_val c = (let k = (of_char c :: nat) in if 48 \<le> k \<and> k \<le> 57 then Some (k - 48) else None)"

fun digits_val :: "nat \<Rightarrow> string \<Rightarrow> nat option" where
  "digits_val acc [] = Some acc"
| "digits_val acc (c # cs) =
     (case digit_val c of None \<Rightarrow> None | Some d \<Rightarrow> digits_val (10 * acc + d) cs)"

definition dec_nat :: "string \<Rightarrow> nat option" where
  "dec_nat s = (if s = [] then None else digits_val 0 s)"

definition dec_int :: "string \<Rightarrow> int option" where
  "dec_int s =
     (case s of
        c # cs \<Rightarrow>
          (if c = CHR ''-'' then map_option (\<lambda>k. - int k) (dec_nat cs)
           else if c = CHR ''+'' then map_option int (dec_nat cs)
           else map_option int (dec_nat s))
      | [] \<Rightarrow> None)"

definition dec_ufloat :: "string \<Rightarrow> real option" where
  "dec_ufloat s =
     (let ip = takeWhile (\<lambda>c. c \<noteq> CHR ''.'') s; rest = dropWhile (\<lambda>c. c \<noteq> CHR ''.'') s in
      case rest of
        [] \<Rightarrow> map_option real (dec_nat ip)
      | _ # fp \<Rightarrow>
          (case (dec_nat ip, dec_nat fp) of
             (Some a, Some b) \<Rightarrow> Some (real a + real b / 10 ^ length fp)
           | _ \<Rightarrow> None))"

definition dec_float :: "string \<Rightarrow> real option" where
  "dec_float s =
     (case s of
        c # cs \<Rightarrow>
          (if c = CHR ''-'' then map_option uminus (dec_ufloat cs)
           else if c = CHR ''+'' then dec_ufloat cs
           else dec_ufloat s)
      | [] \<Rightarrow> None)"


text \<open>
  Indexing a list or a NumPy axis of length \<open>n\<close> with a Python integer: an index in
  \<open>[-n, 0)\<close> counts from the end, anything outside \<open>[-n, n)\<close> raises \<open>IndexError\<close>.
\<close>

definition py_index :: "int \<Rightarrow> int \<Rightarrow> nat option" where
  "py_index n i =
     (if 0 \<le> i \<and> i < n then Some (nat i)
      else if - n \<le> i \<and> i < 0 then Some (nat (i + n))
      else None)"

text \<open>
  A square matrix (dense NumPy array or SciPy CSR matrix) of shape \<open>(dim, dim)\<close>, with
  real entries. The stored entries of a CSR matrix built from a dense array are the
  non-zero ones.
\<close>

record csr =
  dim :: nat
  ent :: "nat \<Rightarrow> nat \<Rightarrow> real"

definition add_at :: "(nat \<Rightarrow> nat \<Rightarrow> real) \<Rightarrow> nat \<Rightarrow> nat \<Rightarrow> real \<Rightarrow> (nat \<Rightarrow> nat \<Rightarrow> real)" where
  "add_at A i j w = A(i := (A i)(j := A i j + w))"

text \<open>The loop of \<open>to_adjacency_matrix\<close>: \<open>A[u][v] += w; A[v][u] += w\<close> for every edge.\<close>

fun add_edges ::
  "int \<Rightarrow> (int \<times> int \<times> real) list \<Rightarrow> (nat \<Rightarrow> nat \<Rightarrow> real) \<Rightarrow> error + (nat \<Rightarrow> nat \<Rightarrow> real)" where
  "add_edges n [] A = Inr A"
| "add_edges n ((u, v, w) # es) A =
     (case (py_index n u, py_index n v) of
        (Some i, Some j) \<Rightarrow> add_edges n es (add_at (add_at A i j w) j i w)
      | _ \<Rightarrow> Inl IndexError)"

definition to_adjacency_matrix :: "Graph \<Rightarrow> error + csr" where
  "to_adjacency_matrix G =
     (if gn G < 0 then Inl ValueError
      else case add_edges (gn G) (edges G) (\<lambda>i j. 0) of
             Inl e \<Rightarrow> Inl e
           | Inr A \<Rightarrow> Inr \<lparr>dim = nat (gn G), ent = A\<rparr>)"

definition weight_vector :: "Graph \<Rightarrow> real list" where
  "weight_vector G = tl (node_weights G)"

definition diags :: "real list \<Rightarrow> csr" where
  "diags ws = \<lparr>dim = length ws, ent = (\<lambda>i j. if i = j \<and> i < length ws then ws ! i else 0)\<rparr>"

definition weight_diag :: "Graph \<Rightarrow> csr" where
  "weight_diag G = diags (weight_vector G)"

definition identity :: "nat \<Rightarrow> csr" where
  "identity n = \<lparr>dim = n, ent = (\<lambda>i j. if i = j \<and> i < n then 1 else 0)\<rparr>"

text \<open>\<open>A.sum(axis=1)\<close>, \<open>A.sum()\<close> and \<open>A.getrow(v).indices\<close>.\<close>

definition row_sums :: "csr \<Rightarrow> nat \<Rightarrow> real" where
  "row_sums A v = (\<Sum>u\<leftarrow>[0..<dim A]. ent A v u)"

definition total_sum :: "csr \<Rightarrow> real" where
  "total_sum A = (\<Sum>v\<leftarrow>[0..<dim A]. row_sums A v)"

definition indices :: "csr \<Rightarrow> nat \<Rightarrow> nat list" where
  "indices A v = filter (\<lambda>u. ent A v u \<noteq> 0) [0..<dim A]"

text \<open>
  Vectors of length \<open>n\<close> are functions on \<open>{0..<n}\<close>: the indicator vector \<open>x\<close> of the
  membership set, the product \<open>M @ x\<close> and the inner product \<open>x @ y\<close>.
\<close>

definition indicator_vec :: "nat list \<Rightarrow> nat \<Rightarrow> real" where
  "indicator_vec ns i = (if i \<in> set ns then 1 else 0)"

definition matvec :: "nat \<Rightarrow> csr \<Rightarrow> (nat \<Rightarrow> real) \<Rightarrow> nat \<Rightarrow> real" where
  "matvec n M x i = (\<Sum>j\<leftarrow>[0..<n]. ent M i j * x j)"

definition dot :: "nat \<Rightarrow> (nat \<Rightarrow> real) \<Rightarrow> (nat \<Rightarrow> real) \<Rightarrow> real" where
  "dot n x y = (\<Sum>i\<leftarrow>[0..<n]. x i * y i)"

section \<open>Greedy peeling engine (utils/greedy.py)\<close>

text \<open>
  The local variables of the peeling loop. The Python set \<open>nodes\<close> is a duplicate-free
  list. The \<open>heapq\<close> heap is kept as a sorted list of \<open>(degree, vertex)\<close> pairs in the
  lexicographic order of Python tuples: \<open>heapify\<close> sorts, \<open>heappush\<close> inserts in order
  and \<open>heappop\<close> takes the head, so that the popped entries are those of a binary heap.
\<close>

record peel_state =
  nodes :: "nat list"
  degrees :: "nat \<Rightarrow> real"
  heap :: "(real \<times> nat) list"
  best_score :: npfloat
  best_nodes :: "nat list"

text \<open>
  Step 1 of the loop body. The test \<open>Q is identity(n, format="csr")\<close> compares \<open>Q\<close> with
  a matrix object created on the spot, so it is false on every call and the denominator
  is always \<open>x @ (Q @ x)\<close>. \<open>P\<close> and \<open>Q\<close> have the shape of \<open>A_sparse\<close>.
\<close>

definition record_score :: "nat \<Rightarrow> csr \<Rightarrow> csr \<Rightarrow> peel_state \<Rightarrow> peel_state" where
  "record_score n P Q st =
     (let x = indicator_vec (nodes st);
          num = dot n x (matvec n P x);
          den = dot n x (matvec n Q x)
      in if 0 < den then
           (let score = np_div (0.5 * num) den in
            if np_lt (best_score st) score
            then st\<lparr>best_score := score, best_nodes := nodes st\<rparr>
            else st)
         else st)"

text \<open>
  Step 2: pop entries until one names a vertex that is still a member; \<open>None\<close> is the
  \<open>else\<close> branch of the inner \<open>while\<close> (the heap ran empty).
\<close>

fun pop_valid :: "nat list \<Rightarrow> (real \<times> nat) list \<Rightarrow> ((real \<times> nat) \<times> (real \<times> nat) list) option" where
  "pop_valid ns [] = None"
| "pop_valid ns ((d, v) # h) = (if v \<in> set ns then Some ((d, v), h) else pop_valid ns h)"

text \<open>Removal of \<open>v\<close>, then the degree update of its neighbours that are still members.\<close>

definition relax :: "csr \<Rightarrow> nat \<Rightarrow> nat \<Rightarrow> peel_state \<Rightarrow> peel_state" where
  "relax A v u st =
     (if u \<in> set (nodes st) then
        (let d = degrees st u - ent A v u in
         st\<lparr>degrees := (degrees st)(u := d), heap := insort (d, u) (heap st)\<rparr>)
      else st)"

definition remove_vertex :: "csr \<Rightarrow> nat \<Rightarrow> peel_state \<Rightarrow> peel_state" where
  "remove_vertex A v st = fold (relax A v) (indices A v) (st\<lparr>nodes := removeAll v (nodes st)\<rparr>)"

lemma pop_valid_member: "pop_valid ns h = Some ((d, v), h') \<Longrightarrow> v \<in> set ns"
  by (induction ns h rule: pop_valid.induct) (auto split: if_splits)

lemma nodes_fold_relax: "nodes (fold (relax A v) us st) = nodes st"
  by (induction us arbitrary: st) (auto simp: relax_def Let_def)

lemma nodes_remove_vertex: "nodes (remove_vertex A v st) = removeAll v (nodes st)"
  by (simp add: remove_vertex_def nodes_fold_relax)

lemma nodes_record_score: "nodes (record_score n P Q st) = nodes st"
  by (simp add: record_score_def Let_def)

function greedy_loop :: "csr \<Rightarrow> csr \<Rightarrow> csr \<Rightarrow> peel_state \<Rightarrow> peel_state" where
  "greedy_loop A P Q st =
     (if nodes st = [] then st
      else
        (let st1 = record_score (dim A) P Q st in
         case pop_valid (nodes st1) (heap st1) of
           None \<Rightarrow> st1
         | Some ((d, v), h) \<Rightarrow> greedy_loop A P Q (remove_vertex A v (st1\<lparr>heap := h\<rparr>))))"
  by pat_completeness auto
termination
  apply (relation "measure (\<lambda>(A, P, Q, st). length (nodes st))")
   apply simp
  apply (auto simp: nodes_remove_vertex nodes_record_score
              dest!: pop_valid_member intro: length_removeAll_less)
  done

declare greedy_loop.simps [simp del]

text \<open>The membership sets seen by the loop condition \<open>while nodes\<close>, in order.\<close>

function greedy_visited :: "csr \<Rightarrow> csr \<Rightarrow> csr \<Rightarrow> peel_state \<Rightarrow> nat list list" where
  "greedy_visited A P Q st =
     nodes st #
     (if nodes st = [] then []
      else
        (let st1 = record_score (dim A) P Q st in
         case pop_valid (nodes st1) (heap st1) of
           None \<Rightarrow> []
         | Some ((d, v), h) \<Rightarrow> greedy_visited A P Q (remove_vertex A v (st1\<lparr>heap := h\<rparr>))))"
  by pat_completeness auto
termination
  apply (relation "measure (\<lambda>(A, P, Q, st). length (nodes st))")
   apply simp
  apply (auto simp: nodes_remove_vertex nodes_record_score
              dest!: pop_valid_member intro: length_removeAll_less)
  done

declare greedy_visited.simps [simp del]

definition greedy_init :: "csr \<Rightarrow> peel_state" where
  "greedy_init A =
     \<lparr>nodes = [0..<dim A],
      degrees = row_sums A,
      heap = sort (map (\<lambda>idx. (row_sums A idx, idx)) [0..<dim A]),
      best_score = NegInf,
      best_nodes = [0..<dim A]\<rparr>"

definition greedy :: "csr \<Rightarrow> csr \<Rightarrow> csr \<Rightarrow> npfloat \<times> nat list" where
  "greedy A P Q = (let st = greedy_loop A P Q (greedy_init A) in (best_score st, best_nodes st))"

text \<open>A square matrix given by its rows, as \<open>csr_matrix([[...], ...])\<close> builds it.\<close>

definition dense :: "real list list \<Rightarrow> csr" where
  "dense rows =
     \<lparr>dim = length rows,
      ent = (\<lambda>i j. if i < length rows \<and> j < length (rows ! i) then rows ! i ! j else 0)\<rparr>"

section \<open>Charikar peeling (Charikar.py)\<close>

text \<open>The loop state of \<open>charikar\<close>: that of the peeling engine and the running edge weight.\<close>

record charikar_state = peel_state +
  current_edge_weight :: real

definition charikar_score :: "charikar_state \<Rightarrow> charikar_state" where
  "charikar_score st =
     (if 0 < length (nodes st) then
        (let score = np_div (current_edge_weight st) (real (length (nodes st))) in
         if np_lt (best_score st) score
         then st\<lparr>best_score := score, best_nodes := nodes st\<rparr>
         else st)
      else st)"

text \<open>
  The body of \<open>for u, w in zip(neighbors, weights)\<close>, where \<open>w\<close> is the stored entry
  \<open>A[v, u]\<close>. Here \<open>v\<close> itself is still a member: it is removed after the loop.
\<close>

definition charikar_relax :: "csr \<Rightarrow> nat \<Rightarrow> nat \<Rightarrow> charikar_state \<Rightarrow> charikar_state" where
  "charikar_relax A v u st =
     (if u \<in> set (nodes st) then
        (let w = ent A v u; d = degrees st u - w in
         st\<lparr>degrees := (degrees st)(u := d),
            current_edge_weight := current_edge_weight st - w,
            heap := insort (d, u) (heap st)\<rparr>)
      else st)"

definition charikar_remove :: "csr \<Rightarrow> nat \<Rightarrow> charikar_state \<Rightarrow> charikar_state" where
  "charikar_remove A v st =
     (let st' = fold (charikar_relax A v) (indices A v) st
      in st'\<lparr>nodes := removeAll v (nodes st')\<rparr>)"

lemma nodes_fold_charikar_relax: "nodes (fold (charikar_relax A v) us st) = nodes st"
  by (induction us arbitrary: st) (auto simp: charikar_relax_def Let_def)

lemma nodes_charikar_remove: "nodes (charikar_remove A v st) = removeAll v (nodes st)"
  by (simp add: charikar_remove_def Let_def nodes_fold_charikar_relax)

lemma nodes_charikar_score: "nodes (charikar_score st) = nodes st"
  by (simp add: charikar_score_def Let_def)

function charikar_loop :: "csr \<Rightarrow> charikar_state \<Rightarrow> charikar_state" where
  "charikar_loop A st =
     (if nodes st = [] then st
      else
        (let st1 = charikar_score st in
         case pop_valid (nodes st1) (heap st1) of
           None \<Rightarrow> st1
         | Some ((d, v), h) \<Rightarrow> charikar_loop A (charikar_remove A v (st1\<lparr>heap := h\<rparr>))))"
  by pat_completeness auto
termination
  apply (relation "measure (\<lambda>(A, st). length (nodes st))")
   apply simp
  apply (auto simp: nodes_charikar_remove nodes_charikar_score
              dest!: pop_valid_member intro: length_removeAll_less)
  done

declare charikar_loop.simps [simp del]

text \<open>
  The membership set and the score computed from it (\<open>current_edge_weight / len(nodes)\<close>)
  at each pass through the loop body, in order.
\<close>

function charikar_scores :: "csr \<Rightarrow> charikar_state \<Rightarrow> (nat list \<times> npfloat) list" where
  "charikar_scores A st =
     (if nodes st = [] then []
      else
        (nodes st, np_div (current_edge_weight st) (real (length (nodes st)))) #
        (let st1 = charikar_score st in
         case pop_valid (nodes st1) (heap st1) of
           None \<Rightarrow> []
         | Some ((d, v), h) \<Rightarrow> charikar_scores A (charikar_remove A v (st1\<lparr>heap := h\<rparr>))))"
  by pat_completeness auto
termination
  apply (relation "measure (\<lambda>(A, st). length (nodes st))")
   apply simp
  apply (auto simp: nodes_charikar_remove nodes_charikar_score
              dest!: pop_valid_member intro: length_removeAll_less)
  done

declare charikar_scores.simps [simp del]

definition charikar_init :: "csr \<Rightarrow> charikar_state" where
  "charikar_init A =
     \<lparr>nodes = [0..<dim A],
      degrees = row_sums A,
      heap = sort (map (\<lambda>idx. (row_sums A idx, idx)) [0..<dim A]),
      best_score = NegInf,
      best_nodes = [0..<dim A],
      current_edge_weight = total_sum A / 2\<rparr>"

text \<open>\<open>charikar\<close> from the adjacency matrix on, from the graph on, and from the file on.\<close>

definition charikar_matrix :: "csr \<Rightarrow> npfloat \<times> nat list" where
  "charikar_matrix A = (let st = charikar_loop A (charikar_init A) in (best_score st, best_nodes st))"

definition charikar_graph :: "Graph \<Rightarrow> error + npfloat \<times> nat list" where
  "charikar_graph G =
     (case to_adjacency_matrix G of Inl e \<Rightarrow> Inl e | Inr A \<Rightarrow> Inr (charikar_matrix A))"

definition charikar ::
  "(string \<Rightarrow> int option) \<Rightarrow> (string \<Rightarrow> real option) \<Rightarrow> string list \<Rightarrow> error + npfloat \<times> nat list" where
  "charikar pint pfloat ls =
     (case load_from_file pint pfloat ls of Inl e \<Rightarrow> Inl e | Inr G \<Rightarrow> charikar_graph G)"

text \<open>
  The graph of the concrete scenario: the complete graph on \<open>{0,1,2,3}\<close> and the pendant
  edge \<open>(0,4)\<close>, all weights one; and the file that holds it.
\<close>

definition K4_pendant :: Graph where
  "K4_pendant =
     \<lparr>gn = 5, gm = 7, node_weights = [0, 1, 1, 1, 1, 1],
      edges = [(0, 1, 1), (0, 2, 1), (0, 3, 1), (1, 2, 1), (1, 3, 1), (2, 3, 1), (0, 4, 1)]\<rparr>"

definition K4_pendant_file :: "string list" where
  "K4_pendant_file =
     [''5 7'', ''1 1 1 1 1'', ''0 1 1'', ''0 2 1'', ''0 3 1'', ''1 2 1'', ''1 3 1'', ''2 3 1'',
      ''0 4 1'']"

definition charikar_run_scores :: "Graph \<Rightarrow> error + (nat list \<times> npfloat) list" where
  "charikar_run_scores G =
     (case to_adjacency_matrix G of
        Inl e \<Rightarrow> Inl e
      | Inr A \<Rightarrow> Inr (charikar_scores A (charikar_init A)))"

section \<open>Parametric flow engine (Flow.py)\<close>

text \<open>
  The nodes of the flow network: the vertices (Python integers) and the two strings
  \<open>"s"\<close> and \<open>"t"\<close>. A \<open>networkx.DiGraph\<close> is its node list and the association list
  of its arcs with their \<open>capacity\<close> attribute; adding an arc that exists overwrites its
  capacity, and adding an arc adds its end nodes.
\<close>

datatype fnode = Vtx int | Src | Snk

record digraph =
  gnodes :: "fnode list"
  garcs :: "((fnode \<times> fnode) \<times> real) list"

definition empty_digraph :: digraph where
  "empty_digraph = \<lparr>gnodes = [], garcs = []\<rparr>"

definition add_node :: "fnode \<Rightarrow> digraph \<Rightarrow> digraph" where
  "add_node a g = (if a \<in> set (gnodes g) then g else g\<lparr>gnodes := gnodes g @ [a]\<rparr>)"

definition add_edge :: "fnode \<Rightarrow> fnode \<Rightarrow> real \<Rightarrow> digraph \<Rightarrow> digraph" where
  "add_edge a b c g =
     (let g' = add_node b (add_node a g) in g'\<lparr>garcs := AList.update (a, b) c (garcs g')\<rparr>)"

text \<open>
  \<open>build_flow_network(n, m, edges, lam, deg)\<close>; the result is the graph \<open>Gf\<close> (the other
  two components of the returned triple are the constants \<open>"s"\<close> and \<open>"t"\<close>). Reading
  \<open>deg[u]\<close> for \<open>u\<close> in \<open>range(n)\<close> raises \<open>IndexError\<close> when \<open>deg\<close> is shorter than \<open>n\<close>.
  \<open>add_undirected\<close> is the body of the loop over the edges, \<open>add_terminals\<close> that of
  the loop over the vertices.
\<close>

definition add_undirected :: "int \<times> int \<Rightarrow> digraph \<Rightarrow> digraph" where
  "add_undirected e g =
     (case e of (u, v) \<Rightarrow> add_edge (Vtx v) (Vtx u) 1 (add_edge (Vtx u) (Vtx v) 1 g))"

definition add_terminals :: "int \<Rightarrow> real \<Rightarrow> int list \<Rightarrow> int \<Rightarrow> digraph \<Rightarrow> digraph" where
  "add_terminals m lam deg u g =
     (let cap = of_int m + 2 * lam - of_int (deg ! nat u)
      in add_edge (Vtx u) Snk (max 0 cap) (add_edge Src (Vtx u) (of_int m) g))"

definition build_flow_network ::
  "int \<Rightarrow> int \<Rightarrow> (int \<times> int) list \<Rightarrow> real \<Rightarrow> int list \<Rightarrow> error + digraph" where
  "build_flow_network n m es lam deg =
     (let Gf0 = add_node Snk (add_node Src (fold (\<lambda>u. add_node (Vtx u)) [0..n - 1] empty_digraph));
          Gf1 = fold add_undirected es Gf0
      in if int (length deg) < n then Inl IndexError
         else Inr (fold (add_terminals m lam deg) [0..n - 1] Gf1))"

text \<open>
  \<open>read_graph\<close>: each edge line gives the tuple of its first two tokens at most, so an
  edge is a list of at most two integers; a short or missing line does not fail here.
\<close>

fun read_pairs :: "(string \<Rightarrow> int option) \<Rightarrow> nat \<Rightarrow> string list \<Rightarrow> error + int list list" where
  "read_pairs pint 0 ls = Inr []"
| "read_pairs pint (Suc k) ls =
     (let (l, rest) = readline ls in
      case those (map pint (take 2 (split l))) of
        None \<Rightarrow> Inl ValueError
      | Some e \<Rightarrow>
          (case read_pairs pint k rest of Inl err \<Rightarrow> Inl err | Inr es \<Rightarrow> Inr (e # es)))"

definition read_graph ::
  "(string \<Rightarrow> int option) \<Rightarrow> string list \<Rightarrow> error + int \<times> int \<times> int list list" where
  "read_graph pint ls =
     (let (l1, r1) = readline ls in
      case those (map pint (split l1)) of
        Some [n, m] \<Rightarrow>
          (let (l2, r2) = readline r1 in
           case read_pairs pint (nat m) r2 of
             Inl e \<Rightarrow> Inl e
           | Inr es \<Rightarrow> Inr (n, m, es))
      | _ \<Rightarrow> Inl ValueError)"

text \<open>
  The degree count \<open>for u, v in edges: deg[u] += 1; deg[v] += 1\<close>: unpacking a tuple
  that is not a pair raises \<open>ValueError\<close>, an index outside \<open>[-n, n)\<close> raises
  \<open>IndexError\<close>.
\<close>

fun count_degrees :: "int list list \<Rightarrow> int list \<Rightarrow> error + int list" where
  "count_degrees [] deg = Inr deg"
| "count_degrees (e # es) deg =
     (case e of
        [u, v] \<Rightarrow>
          (case py_index (int (length deg)) u of
             None \<Rightarrow> Inl IndexError
           | Some i \<Rightarrow>
               (let deg1 = deg[i := deg ! i + 1] in
                case py_index (int (length deg1)) v of
                  None \<Rightarrow> Inl IndexError
                | Some j \<Rightarrow> count_degrees es (deg1[j := deg1 ! j + 1])))
      | _ \<Rightarrow> Inl ValueError)"

text \<open>
  The binary search. \<open>nx.minimum_cut\<close> is a parameter: it maps the network to the source
  side \<open>S_side\<close> of the cut it finds. The loop need not terminate (for \<open>eps \<le> 0\<close> it does
  not), so the result is an option and \<open>None\<close> stands for a search that never returns.
\<close>

partial_function (option) flow_search ::
  "(digraph \<Rightarrow> fnode list) \<Rightarrow> int \<Rightarrow> int \<Rightarrow> (int \<times> int) list \<Rightarrow> int list \<Rightarrow> real
     \<Rightarrow> real \<Rightarrow> real \<Rightarrow> fnode list \<Rightarrow> (error + fnode list) option" where
  "flow_search mincut n m es deg eps l r best_S =
     (if r - l > eps then
        (let lam = (l + r) / 2 in
         case build_flow_network n m es lam deg of
           Inl e \<Rightarrow> Some (Inl e)
         | Inr Gf \<Rightarrow>
             (let S_side = mincut Gf; V1 = removeAll Src S_side in
              if V1 \<noteq> [] then flow_search mincut n m es deg eps lam r V1
              else flow_search mincut n m es deg eps l lam best_S))
      else Some (Inr best_S))"

declare flow_search.simps [code]

text \<open>
  \<open>densest_subgraph_exact\<close> from the parsed graph on. The final division is Python's
  \<open>int / int\<close>, which raises \<open>ZeroDivisionError\<close> for a zero divisor.
\<close>

definition densest_subgraph_core ::
  "(digraph \<Rightarrow> fnode list) \<Rightarrow> int \<Rightarrow> int \<Rightarrow> int list list \<Rightarrow> real
     \<Rightarrow> (error + real \<times> fnode list) option" where
  "densest_subgraph_core mincut n m edges0 eps =
     (case count_degrees edges0 (replicate (nat n) 0) of
        Inl e \<Rightarrow> Some (Inl e)
      | Inr deg \<Rightarrow>
          (let es = map (\<lambda>e. (e ! 0, e ! 1)) edges0 in
           case flow_search mincut n m es deg eps 0 (of_int m) (map Vtx [0..n - 1]) of
             None \<Rightarrow> None
           | Some (Inl e) \<Rightarrow> Some (Inl e)
           | Some (Inr best_S) \<Rightarrow>
               (let sub_edges = length (filter (\<lambda>(u, v). Vtx u \<in> set best_S \<and> Vtx v \<in> set best_S) es)
                in if card (set best_S) = 0 then Some (Inl ZeroDivisionError)
                   else Some (Inr (real sub_edges / real (card (set best_S)), best_S)))))"

definition densest_subgraph_exact ::
  "(digraph \<Rightarrow> fnode list) \<Rightarrow> (string \<Rightarrow> int option) \<Rightarrow> string list \<Rightarrow> real
     \<Rightarrow> (error + real \<times> fnode list) option" where
  "densest_subgraph_exact mincut pint ls eps =
     (case read_graph pint ls of
        Inl e \<Rightarrow> Some (Inl e)
      | Inr (n, m, edges0) \<Rightarrow> densest_subgraph_core mincut n m edges0 eps)"

text \<open>
  A reference minimum-cut solver by exhaustive search, standing for \<open>nx.minimum_cut\<close>
  on small networks: the capacity of a cut is the sum of the capacities of the arcs
  that leave its source side, and among the cuts of least capacity the source side
  returned is the largest one (their union), which is the side that networkx reports.
\<close>

definition cut_capacity :: "digraph \<Rightarrow> fnode list \<Rightarrow> real" where
  "cut_capacity g S = (\<Sum>((a, b), c)\<leftarrow>garcs g. if a \<in> set S \<and> b \<notin> set S then c else 0)"

definition source_sides :: "digraph \<Rightarrow> fnode list list" where
  "source_sides g = map (\<lambda>T. Src # T) (subseqs (filter (\<lambda>a. a \<noteq> Src \<and> a \<noteq> Snk) (gnodes g)))"

definition least_capacity :: "(real \<times> fnode list) list \<Rightarrow> real" where
  "least_capacity caps = fold min (map fst caps) (fst (hd caps))"

definition sides_of_capacity :: "real \<Rightarrow> (real \<times> fnode list) list \<Rightarrow> fnode list list" where
  "sides_of_capacity c caps = map snd (filter (\<lambda>(c', S). c' = c) caps)"

definition union_of_sides :: "fnode list \<Rightarrow> fnode list list \<Rightarrow> fnode list" where
  "union_of_sides ns sides = filter (\<lambda>a. \<exists>S \<in> set sides. a \<in> set S) ns"

definition largest_minimum :: "fnode list \<Rightarrow> (real \<times> fnode list) list \<Rightarrow> fnode list" where
  "largest_minimum ns caps = union_of_sides ns (sides_of_capacity (least_capacity caps) caps)"

definition minimum_cut :: "digraph \<Rightarrow> fnode list" where
  "minimum_cut g = largest_minimum (gnodes g) (map (\<lambda>S. (cut_capacity g S, S)) (source_sides g))"

section \<open>Floating-point arithmetic\<close>

text \<open>
  The engines above compute with exact real numbers. The Python code computes with
  float64 values, and two of its properties depend on that: overflow produces
  infinities, and rounding separates quantities that are equal as real numbers. The
  engines are therefore given a second time, over \<open>npfloat\<close> values and with the
  arithmetic as a parameter: the four operations, and the reduction \<open>fsum\<close> that
  stands for the sums taken by NumPy and SciPy (whose order of additions is theirs).
\<close>

record arith =
  fadd :: "npfloat \<Rightarrow> npfloat \<Rightarrow> npfloat"
  fsub :: "npfloat \<Rightarrow> npfloat \<Rightarrow> npfloat"
  fmul :: "npfloat \<Rightarrow> npfloat \<Rightarrow> npfloat"
  fdiv :: "npfloat \<Rightarrow> npfloat \<Rightarrow> npfloat"
  fsum :: "npfloat list \<Rightarrow> npfloat"

text \<open>
  IEEE 754 binary64 with rounding to nearest, ties to even. \<open>ilog2 a\<close> is
  \<open>\<lfloor>log\<^sub>2 a\<rfloor>\<close> for \<open>a > 0\<close>; below \<open>2\<^sup>-\<^sup>1\<^sup>0\<^sup>2\<^sup>2\<close> the spacing is that of the subnormal
  numbers; a rounded value of \<open>2\<^sup>1\<^sup>0\<^sup>2\<^sup>4\<close> or more is an infinity. The sign of zero is not
  modelled.
\<close>

definition pow2 :: "int \<Rightarrow> real" where
  "pow2 e = (if 0 \<le> e then 2 ^ nat e else 1 / 2 ^ nat (- e))"

definition ilog2 :: "real \<Rightarrow> int" where
  "ilog2 a =
     (if 1 \<le> a then bitlen \<lfloor>a\<rfloor> - 1
      else - bitlen (\<lceil>1 / a\<rceil> - 1))"

definition round_half_even :: "real \<Rightarrow> int" where
  "round_half_even q =
     (let f = \<lfloor>q\<rfloor> in
      if q - of_int f < 1 / 2 then f
      else if 1 / 2 < q - of_int f then f + 1
      else if even f then f else f + 1)"

definition round64 :: "real \<Rightarrow> npfloat" where
  "round64 x =
     (if x = 0 then Fin 0
      else
        (let a = \<bar>x\<bar>;
             e = max (ilog2 a) (- 1022);
             u = pow2 (e - 52);
             r = round_half_even (a / u)
         in if 1023 < e \<or> (e = 1023 \<and> r = 2 ^ 53)
            then (if 0 < x then PosInf else NegInf)
            else Fin (sgn x * (of_int r * u))))"

definition inf_of :: "bool \<Rightarrow> npfloat" where
  "inf_of positive = (if positive then PosInf else NegInf)"

fun is_positive :: "npfloat \<Rightarrow> bool" where
  "is_positive PosInf = True"
| "is_positive (Fin a) = (0 \<le> a)"
| "is_positive _ = False"

fun ieee_neg :: "npfloat \<Rightarrow> npfloat" where
  "ieee_neg NaN = NaN"
| "ieee_neg (Fin a) = Fin (- a)"
| "ieee_neg PosInf = NegInf"
| "ieee_neg NegInf = PosInf"

fun ieee_add :: "npfloat \<Rightarrow> npfloat \<Rightarrow> npfloat" where
  "ieee_add NaN _ = NaN"
| "ieee_add _ NaN = NaN"
| "ieee_add (Fin a) (Fin b) = round64 (a + b)"
| "ieee_add PosInf NegInf = NaN"
| "ieee_add NegInf PosInf = NaN"
| "ieee_add PosInf _ = PosInf"
| "ieee_add NegInf _ = NegInf"
| "ieee_add _ PosInf = PosInf"
| "ieee_add _ NegInf = NegInf"

definition ieee_sub :: "npfloat \<Rightarrow> npfloat \<Rightarrow> npfloat" where
  "ieee_sub a b = ieee_add a (ieee_neg b)"

fun ieee_mul :: "npfloat \<Rightarrow> npfloat \<Rightarrow> npfloat" where
  "ieee_mul NaN _ = NaN"
| "ieee_mul _ NaN = NaN"
| "ieee_mul (Fin a) (Fin b) = round64 (a * b)"
| "ieee_mul (Fin a) b = (if a = 0 then NaN else inf_of (is_positive (Fin a) = is_positive b))"
| "ieee_mul a (Fin b) = (if b = 0 then NaN else inf_of (is_positive a = is_positive (Fin b)))"
| "ieee_mul a b = inf_of (is_positive a = is_positive b)"

fun ieee_div :: "npfloat \<Rightarrow> npfloat \<Rightarrow> npfloat" where
  "ieee_div NaN _ = NaN"
| "ieee_div _ NaN = NaN"
| "ieee_div (Fin a) (Fin b) =
     (if b \<noteq> 0 then round64 (a / b)
      else if a = 0 then NaN
      else inf_of (0 < a))"
| "ieee_div (Fin a) _ = Fin 0"
| "ieee_div a (Fin b) = inf_of (is_positive a = is_positive (Fin b))"
| "ieee_div _ _ = NaN"

definition ieee :: arith where
  "ieee = \<lparr>fadd = ieee_add, fsub = ieee_sub, fmul = ieee_mul, fdiv = ieee_div,
           fsum = foldl ieee_add (Fin 0)\<rparr>"


section \<open>The peeling engines in floating-point arithmetic\<close>

text \<open>
  \<open>greedy\<close> and \<open>charikar\<close> once more, statement by statement, with every arithmetic
  operation of the Python code taken from the arithmetic \<open>ar\<close>. Matrix entries are finite
  floats (real numbers); every computed quantity is an \<open>npfloat\<close>.
\<close>

record fl_state =
  fl_nodes :: "nat list"
  fl_degrees :: "nat \<Rightarrow> npfloat"
  fl_heap :: "(npfloat \<times> nat) list"
  fl_best_score :: npfloat
  fl_best_nodes :: "nat list"

definition fl_indicator :: "nat list \<Rightarrow> nat \<Rightarrow> npfloat" where
  "fl_indicator ns i = (if i \<in> set ns then Fin 1 else Fin 0)"

text \<open>\<open>M @ x\<close> on a CSR matrix runs over the stored entries of each row.\<close>

definition fl_matvec :: "arith \<Rightarrow> nat \<Rightarrow> csr \<Rightarrow> (nat \<Rightarrow> npfloat) \<Rightarrow> nat \<Rightarrow> npfloat" where
  "fl_matvec ar n M x i =
     fsum ar (map (\<lambda>j. fmul ar (Fin (ent M i j)) (x j)) (filter (\<lambda>j. ent M i j \<noteq> 0) [0..<n]))"

definition fl_dot :: "arith \<Rightarrow> nat \<Rightarrow> (nat \<Rightarrow> npfloat) \<Rightarrow> (nat \<Rightarrow> npfloat) \<Rightarrow> npfloat" where
  "fl_dot ar n x y = fsum ar (map (\<lambda>i. fmul ar (x i) (y i)) [0..<n])"

definition fl_row_sums :: "arith \<Rightarrow> csr \<Rightarrow> nat \<Rightarrow> npfloat" where
  "fl_row_sums ar A v = fsum ar (map (\<lambda>u. Fin (ent A v u)) (indices A v))"


text \<open>The denominator \<open>x @ (Q @ x)\<close> of the current membership set, and step 1 of the loop.\<close>

definition fl_den :: "arith \<Rightarrow> nat \<Rightarrow> csr \<Rightarrow> fl_state \<Rightarrow> npfloat" where
  "fl_den ar n Q st = fl_dot ar n (fl_indicator (fl_nodes st)) (fl_matvec ar n Q (fl_indicator (fl_nodes st)))"

definition fl_record_score :: "arith \<Rightarrow> nat \<Rightarrow> csr \<Rightarrow> csr \<Rightarrow> fl_state \<Rightarrow> fl_state" where
  "fl_record_score ar n P Q st =
     (let x = fl_indicator (fl_nodes st);
          num = fl_dot ar n x (fl_matvec ar n P x);
          den = fl_den ar n Q st
      in if np_lt (Fin 0) den then
           (let score = fdiv ar (fmul ar (Fin (1 / 2)) num) den in
            if np_lt (fl_best_score st) score
            then st\<lparr>fl_best_score := score, fl_best_nodes := fl_nodes st\<rparr>
            else st)
         else st)"

text \<open>
  The heap, kept in the order of Python's tuple comparison (which is a linear order as
  long as no key is NaN): an entry is pushed in front of the first entry that is not
  smaller, and popped from the head.
\<close>

definition py_tuple_lt :: "npfloat \<times> nat \<Rightarrow> npfloat \<times> nat \<Rightarrow> bool" where
  "py_tuple_lt a b = (if fst a = fst b \<and> fst a \<noteq> NaN then snd a < snd b else np_lt (fst a) (fst b))"

fun fl_heappush :: "npfloat \<times> nat \<Rightarrow> (npfloat \<times> nat) list \<Rightarrow> (npfloat \<times> nat) list" where
  "fl_heappush e [] = [e]"
| "fl_heappush e (y # ys) = (if py_tuple_lt y e then y # fl_heappush e ys else e # y # ys)"

fun fl_pop_valid ::
  "nat list \<Rightarrow> (npfloat \<times> nat) list \<Rightarrow> ((npfloat \<times> nat) \<times> (npfloat \<times> nat) list) option" where
  "fl_pop_valid ns [] = None"
| "fl_pop_valid ns ((d, v) # h) = (if v \<in> set ns then Some ((d, v), h) else fl_pop_valid ns h)"

definition fl_relax :: "arith \<Rightarrow> csr \<Rightarrow> nat \<Rightarrow> nat \<Rightarrow> fl_state \<Rightarrow> fl_state" where
  "fl_relax ar A v u st =
     (if u \<in> set (fl_nodes st) then
        (let d = fsub ar (fl_degrees st u) (Fin (ent A v u)) in
         st\<lparr>fl_degrees := (fl_degrees st)(u := d), fl_heap := fl_heappush (d, u) (fl_heap st)\<rparr>)
      else st)"

definition fl_remove_vertex :: "arith \<Rightarrow> csr \<Rightarrow> nat \<Rightarrow> fl_state \<Rightarrow> fl_state" where
  "fl_remove_vertex ar A v st =
     fold (fl_relax ar A v) (indices A v) (st\<lparr>fl_nodes := removeAll v (fl_nodes st)\<rparr>)"

lemma fl_pop_valid_member: "fl_pop_valid ns h = Some ((d, v), h') \<Longrightarrow> v \<in> set ns"
  by (induction ns h rule: fl_pop_valid.induct) (auto split: if_splits)

lemma fl_nodes_fold_relax: "fl_nodes (fold (fl_relax ar A v) us st) = fl_nodes st"
  by (induction us arbitrary: st) (auto simp: fl_relax_def Let_def)

lemma fl_nodes_remove_vertex: "fl_nodes (fl_remove_vertex ar A v st) = removeAll v (fl_nodes st)"
  by (simp add: fl_remove_vertex_def fl_nodes_fold_relax)

lemma fl_nodes_record_score: "fl_nodes (fl_record_score ar n P Q st) = fl_nodes st"
  by (simp add: fl_record_score_def Let_def)

function fl_greedy_loop :: "arith \<Rightarrow> csr \<Rightarrow> csr \<Rightarrow> csr \<Rightarrow> fl_state \<Rightarrow> fl_state" where
  "fl_greedy_loop ar A P Q st =
     (if fl_nodes st = [] then st
      else
        (let st1 = fl_record_score ar (dim A) P Q st in
         case fl_pop_valid (fl_nodes st1) (fl_heap st1) of
           None \<Rightarrow> st1
         | Some ((d, v), h) \<Rightarrow>
             fl_greedy_loop ar A P Q (fl_remove_vertex ar A v (st1\<lparr>fl_heap := h\<rparr>))))"
  by pat_completeness auto
termination
  apply (relation "measure (\<lambda>(ar, A, P, Q, st). length (fl_nodes st))")
   apply simp
  apply (auto simp: fl_nodes_remove_vertex fl_nodes_record_score
              dest!: fl_pop_valid_member intro: length_removeAll_less)
  done

declare fl_greedy_loop.simps [simp del]

text \<open>
  The denominators by which the loop divides, in order: the value of \<open>den\<close> at each
  pass whose test \<open>den > 0\<close> succeeds.
\<close>

function fl_divisors :: "arith \<Rightarrow> csr \<Rightarrow> csr \<Rightarrow> csr \<Rightarrow> fl_state \<Rightarrow> npfloat list" where
  "fl_divisors ar A P Q st =
     (if fl_nodes st = [] then []
      else
        (if np_lt (Fin 0) (fl_den ar (dim A) Q st) then [fl_den ar (dim A) Q st] else []) @
        (let st1 = fl_record_score ar (dim A) P Q st in
         case fl_pop_valid (fl_nodes st1) (fl_heap st1) of
           None \<Rightarrow> []
         | Some ((d, v), h) \<Rightarrow>
             fl_divisors ar A P Q (fl_remove_vertex ar A v (st1\<lparr>fl_heap := h\<rparr>))))"
  by pat_completeness auto
termination
  apply (relation "measure (\<lambda>(ar, A, P, Q, st). length (fl_nodes st))")
   apply simp
  apply (auto simp: fl_nodes_remove_vertex fl_nodes_record_score
              dest!: fl_pop_valid_member intro: length_removeAll_less)
  done

declare fl_divisors.simps [simp del]

definition fl_greedy_init :: "arith \<Rightarrow> csr \<Rightarrow> fl_state" where
  "fl_greedy_init ar A =
     \<lparr>fl_nodes = [0..<dim A],
      fl_degrees = fl_row_sums ar A,
      fl_heap = foldr fl_heappush (map (\<lambda>idx. (fl_row_sums ar A idx, idx)) [0..<dim A]) [],
      fl_best_score = NegInf,
      fl_best_nodes = [0..<dim A]\<rparr>"

definition fl_greedy :: "arith \<Rightarrow> csr \<Rightarrow> csr \<Rightarrow> csr \<Rightarrow> npfloat \<times> nat list" where
  "fl_greedy ar A P Q =
     (let st = fl_greedy_loop ar A P Q (fl_greedy_init ar A) in (fl_best_score st, fl_best_nodes st))"















definition huge :: real where
  "huge = 2 ^ 1023"

section \<open>Density variant selection and spectral candidates (SpecGreedy.py)\<close>

text \<open>\<open>str.lower()\<close> on ASCII text.\<close>

definition lower_char :: "char \<Rightarrow> char" where
  "lower_char c =
     (let k = (of_char c :: nat) in if 65 \<le> k \<and> k \<le> 90 then char_of (k + 32) else c)"

definition lower :: "string \<Rightarrow> string" where
  "lower s = map lower_char s"

text \<open>Entrywise matrix arithmetic of SciPy, on matrices of the shape of the first operand.\<close>

definition mat_add :: "csr \<Rightarrow> csr \<Rightarrow> csr" where
  "mat_add M N = \<lparr>dim = dim M, ent = (\<lambda>i j. ent M i j + ent N i j)\<rparr>"

definition mat_sub :: "csr \<Rightarrow> csr \<Rightarrow> csr" where
  "mat_sub M N = \<lparr>dim = dim M, ent = (\<lambda>i j. ent M i j - ent N i j)\<rparr>"

definition mat_scale :: "real \<Rightarrow> csr \<Rightarrow> csr" where
  "mat_scale c M = \<lparr>dim = dim M, ent = (\<lambda>i j. c * ent M i j)\<rparr>"

definition mat_neg :: "csr \<Rightarrow> csr" where
  "mat_neg M = \<lparr>dim = dim M, ent = (\<lambda>i j. - ent M i j)\<rparr>"

definition maximum0 :: "csr \<Rightarrow> csr" where
  "maximum0 M = \<lparr>dim = dim M, ent = (\<lambda>i j. max (ent M i j) 0)\<rparr>"

text \<open>
  The \<open>if\<close>/\<open>elif\<close> chain of \<open>SpecGreedy\<close> on the lower-cased method name. The first
  component of the result tells whether the \<open>[WARN]\<close> line is printed.
\<close>

definition select_PQ :: "string \<Rightarrow> Graph \<Rightarrow> csr \<Rightarrow> csr \<Rightarrow> csr \<Rightarrow> bool \<times> csr \<times> csr" where
  "select_PQ method G A D I_n =
     (if method = ''minquotientcut'' then (False, mat_sub A D, I_n)
      else if method = ''charikar'' then (False, A, I_n)
      else if method = ''fraudar'' then
        (let D_w = weight_diag G in (False, mat_add A (mat_scale 2 D_w), I_n))
      else if method = ''sparsecutds'' then
        (let alpha = 1; coeff = (2 * alpha) / (2 * alpha + 1)
         in (False, mat_sub A (mat_scale coeff D), I_n))
      else if method = ''risk-averse ds'' then
        (let A_plus = maximum0 A; A_minus = maximum0 (mat_neg A); lambda1 = 1; lambda2 = 1
         in (False, mat_add A_plus (mat_scale lambda1 I_n), mat_add A_minus (mat_scale lambda2 I_n)))
      else (True, A, I_n))"

text \<open>\<open>M[S_r, :][:, S_r]\<close>: the rows and columns listed in \<open>S_r\<close>, re-indexed from 0.\<close>

definition submatrix :: "csr \<Rightarrow> nat list \<Rightarrow> csr" where
  "submatrix M S_r =
     \<lparr>dim = length S_r,
      ent = (\<lambda>i j. if i < length S_r \<and> j < length S_r then ent M (S_r ! i) (S_r ! j) else 0)\<rparr>"

text \<open>
  The part of the loop body up to the call of \<open>greedy\<close>, for iteration \<open>i\<close>: the
  candidate index set of the \<open>i\<close>-th singular vectors and the result of peeling the
  induced subgraph. \<open>U\<close> is the list of the rows of the array \<open>U\<close>, \<open>Vt\<close> that of the
  rows of \<open>Vt\<close>. The peeling engine is the parameter \<open>peel\<close>. \<open>above_threshold n val\<close>
  is the test \<open>val > threshold\<close> with \<open>threshold = 1 / np.sqrt(len(L))\<close> and \<open>len(L) = n\<close>
  (for \<open>n = 0\<close> there is no entry to test).
\<close>

definition above_threshold :: "nat \<Rightarrow> real \<Rightarrow> bool" where
  "above_threshold n val \<longleftrightarrow> 1 / sqrt (real n) < val"

lemma above_threshold_code [code]:
  "above_threshold n val \<longleftrightarrow> (if n = 0 then 0 < val else 0 < val \<and> 1 < val * val * real n)"
proof (cases "n = 0")
  case True
  then show ?thesis by (simp add: above_threshold_def)
next
  case False
  then have s: "0 < sqrt (real n)" by simp
  have sq: "sqrt (real n) * sqrt (real n) = real n" by simp
  show ?thesis
  proof (cases "0 < val")
    case True
    have "1 / sqrt (real n) < val \<longleftrightarrow> 1 < val * sqrt (real n)"
      using s by (simp add: field_simps)
    also have "\<dots> \<longleftrightarrow> 1 * 1 < (val * sqrt (real n)) * (val * sqrt (real n))"
    proof
      assume "1 < val * sqrt (real n)"
      then show "1 * 1 < (val * sqrt (real n)) * (val * sqrt (real n))"
        by (intro mult_strict_mono) simp_all
    next
      assume a: "1 * 1 < (val * sqrt (real n)) * (val * sqrt (real n))"
      show "1 < val * sqrt (real n)"
      proof (rule ccontr)
        assume "\<not> 1 < val * sqrt (real n)"
        then have le: "val * sqrt (real n) \<le> 1" by simp
        have "0 \<le> val * sqrt (real n)" using True s by simp
        with le have "(val * sqrt (real n)) * (val * sqrt (real n)) \<le> 1 * 1"
          by (intro mult_mono) simp_all
        with a show False by simp
      qed
    qed
    also have "(val * sqrt (real n)) * (val * sqrt (real n)) = val * val * real n"
      using sq by (simp add: algebra_simps)
    finally show ?thesis using False True by (simp add: above_threshold_def)
  next
    case neg: False
    have "0 < 1 / sqrt (real n)" using s by simp
    with neg have "\<not> 1 / sqrt (real n) < val" by linarith
    with neg False show ?thesis by (simp add: above_threshold_def)
  qed
qed

definition candidate_set :: "nat \<Rightarrow> real list list \<Rightarrow> real list list \<Rightarrow> nat \<Rightarrow> nat list" where
  "candidate_set n U Vt i =
     (let u_vec = map (\<lambda>row. row ! i) U;
          v_vec = Vt ! i;
          S_u = filter (\<lambda>idx. above_threshold n (u_vec ! idx)) [0..<length u_vec];
          S_v = filter (\<lambda>idx. above_threshold n (v_vec ! idx)) [0..<length v_vec]
      in sort (remdups (S_u @ S_v)))"

definition candidate ::
  "(csr \<Rightarrow> csr \<Rightarrow> csr \<Rightarrow> npfloat \<times> nat list) \<Rightarrow> csr \<Rightarrow> csr \<Rightarrow> csr
     \<Rightarrow> real list list \<Rightarrow> real list list \<Rightarrow> nat \<Rightarrow> npfloat \<times> nat list" where
  "candidate peel A P Q U Vt i =
     (let S_r = candidate_set (dim A) U Vt i
      in peel (submatrix A S_r) (submatrix P S_r) (submatrix Q S_r))"

text \<open>
  The loop \<open>for i in range(0, k)\<close> from iteration \<open>i\<close> on, with the running \<open>S\<close> and
  \<open>best_score\<close>; \<open>cand i\<close> is what \<open>greedy\<close> returns in iteration \<open>i\<close>.
\<close>

function SpecGreedy_loop ::
  "(nat \<Rightarrow> npfloat \<times> nat list) \<Rightarrow> real list \<Rightarrow> nat \<Rightarrow> nat \<Rightarrow> nat list \<Rightarrow> npfloat
     \<Rightarrow> nat list \<times> npfloat" where
  "SpecGreedy_loop cand sigmas k i S best_score0 =
     (if i < k then
        (let (score, node_set) = cand i;
             (best_score1, S1) =
               (if np_lt best_score0 score then (score, node_set) else (best_score0, S))
         in if i + 1 < k \<and> np_le (Fin (sigmas ! (i + 1))) best_score1 then (S1, best_score1)
            else SpecGreedy_loop cand sigmas k (i + 1) S1 best_score1)
      else (S, best_score0))"
  by pat_completeness auto
termination
  by (relation "measure (\<lambda>(cand, sigmas, k, i, S, b). k - i)") auto

declare SpecGreedy_loop.simps [simp del]

text \<open>
  The reference loop of the early-termination property, following the spec's words:
  the same candidate loop run to completion, without the early break.
\<close>

function SpecGreedy_loop_full ::
  "(nat \<Rightarrow> npfloat \<times> nat list) \<Rightarrow> nat \<Rightarrow> nat \<Rightarrow> nat list \<Rightarrow> npfloat \<Rightarrow> nat list \<times> npfloat" where
  "SpecGreedy_loop_full cand k i S best_score0 =
     (if i < k then
        (let (score, node_set) = cand i;
             (best_score1, S1) =
               (if np_lt best_score0 score then (score, node_set) else (best_score0, S))
         in SpecGreedy_loop_full cand k (i + 1) S1 best_score1)
      else (S, best_score0))"
  by pat_completeness auto
termination
  by (relation "measure (\<lambda>(cand, k, i, S, b). k - i)") auto

declare SpecGreedy_loop_full.simps [simp del]

text \<open>
  A Python value of the returned tuple: a float or a list of integers.
\<close>

datatype pyval = PyFloat npfloat | PyList "nat list"



text \<open>
  \<open>SpecGreedy(graph_path, k, method)\<close>. \<open>svds\<close> is a parameter: it gives the arrays
  \<open>U\<close>, \<open>SIGMA\<close> (here \<open>sigmas\<close>), \<open>Vt\<close> with \<open>k\<close> singular triplets in ascending order, or raises;
  the code then reverses the order. The result is the tuple of the \<open>return\<close> statement.
\<close>

definition SpecGreedy_graph ::
  "(csr \<Rightarrow> nat \<Rightarrow> error + real list list \<times> real list \<times> real list list)
     \<Rightarrow> (csr \<Rightarrow> csr \<Rightarrow> csr \<Rightarrow> npfloat \<times> nat list)
     \<Rightarrow> Graph \<Rightarrow> nat \<Rightarrow> string \<Rightarrow> error + pyval \<times> pyval" where
  "SpecGreedy_graph svds peel G k method =
     (case to_adjacency_matrix G of
        Inl e \<Rightarrow> Inl e
      | Inr A \<Rightarrow>
          (let n = dim A;
               D = diags (map (row_sums A) [0..<n]);
               I_n = identity n;
               (warned, P, Q) = select_PQ (lower method) G A D I_n
           in case svds A k of
                Inl e \<Rightarrow> Inl e
              | Inr (U0, sigmas0, Vt0) \<Rightarrow>
                  (let U = map rev U0; sigmas = rev sigmas0; Vt = rev Vt0;
                       (S, best_score0) =
                         SpecGreedy_loop (candidate peel A P Q U Vt) sigmas k 0 [] (Fin 0)
                   in Inr (PyList S, PyFloat best_score0))))"

definition SpecGreedy ::
  "(csr \<Rightarrow> nat \<Rightarrow> error + real list list \<times> real list \<times> real list list)
     \<Rightarrow> (csr \<Rightarrow> csr \<Rightarrow> csr \<Rightarrow> npfloat \<times> nat list)
     \<Rightarrow> (string \<Rightarrow> int option) \<Rightarrow> (string \<Rightarrow> real option)
     \<Rightarrow> string list \<Rightarrow> nat \<Rightarrow> string \<Rightarrow> error + pyval \<times> pyval" where
  "SpecGreedy svds peel pint pfloat ls k method =
     (case load_from_file pint pfloat ls of
        Inl e \<Rightarrow> Inl e
      | Inr G \<Rightarrow> SpecGreedy_graph svds peel G k method)"

text \<open>
  The input of the spectral examples: two disjoint edges, \<open>(0,1)\<close> of weight 2 and
  \<open>(2,3)\<close> of weight 1, with node weights 0, 0, 10, 10; and a singular value
  decomposition of its adjacency matrix as \<open>svds\<close> returns it for \<open>k = 3\<close> (ascending
  singular values 1, 2, 2; the columns of \<open>U\<close> are \<open>e\<^sub>2, e\<^sub>1, e\<^sub>0\<close>, the rows of \<open>Vt\<close> are
  \<open>e\<^sub>3, e\<^sub>0, e\<^sub>1\<close>).
\<close>

definition two_edges :: Graph where
  "two_edges =
     \<lparr>gn = 4, gm = 2, node_weights = [0, 0, 0, 10, 10], edges = [(0, 1, 2), (2, 3, 1)]\<rparr>"

definition two_edges_svds :: "csr \<Rightarrow> nat \<Rightarrow> error + real list list \<times> real list \<times> real list list" where
  "two_edges_svds A k =
     Inr ([[0, 0, 1], [0, 1, 0], [1, 0, 0], [0, 0, 0]],
          [1, 2, 2],
          [[0, 0, 0, 1], [1, 0, 0, 0], [0, 1, 0, 0]])"

text \<open>
  The check that \<open>k = n - 1\<close> triplets (in descending order) are the leading singular
  triplets of \<open>A\<close>: the \<open>u\<^sub>i\<close> and the \<open>v\<^sub>i\<close> are orthonormal, \<open>A v\<^sub>i = \<sigma>\<^sub>i u\<^sub>i\<close> and
  \<open>A\<^sup>T u\<^sub>i = \<sigma>\<^sub>i v\<^sub>i\<close>, the \<open>\<sigma>\<^sub>i\<close> are non-negative and descending, and the square of the
  one remaining singular value, \<open>\<parallel>A\<parallel>\<^sub>F\<^sup>2 - \<Sum> \<sigma>\<^sub>i\<^sup>2\<close>, is at most the square of the last one.
\<close>

definition vdot :: "real list \<Rightarrow> real list \<Rightarrow> real" where
  "vdot x y = (\<Sum>(a, b)\<leftarrow>zip x y. a * b)"

definition leading_triplets :: "csr \<Rightarrow> real list list \<Rightarrow> real list \<Rightarrow> real list list \<Rightarrow> bool" where
  "leading_triplets A U sigmas Vt =
     (let n = dim A; k = length sigmas;
          us = map (\<lambda>i. map (\<lambda>row. row ! i) U) [0..<k];
          rows = map (\<lambda>i. map (ent A i) [0..<n]) [0..<n];
          cols = map (\<lambda>j. map (\<lambda>i. ent A i j) [0..<n]) [0..<n]
      in Suc k = n \<and> length U = n \<and> length Vt = k
         \<and> (\<forall>i \<in> set [0..<k]. length (us ! i) = n \<and> length (Vt ! i) = n
               \<and> map (\<lambda>r. vdot r (Vt ! i)) rows = map (\<lambda>a. sigmas ! i * a) (us ! i)
               \<and> map (\<lambda>c. vdot c (us ! i)) cols = map (\<lambda>a. sigmas ! i * a) (Vt ! i)
               \<and> 0 \<le> sigmas ! i
               \<and> (\<forall>j \<in> set [0..<k].
                     vdot (us ! i) (us ! j) = (if i = j then 1 else 0)
                     \<and> vdot (Vt ! i) (Vt ! j) = (if i = j then 1 else 0)
                     \<and> (i \<le> j \<longrightarrow> sigmas ! j \<le> sigmas ! i)))
         \<and> (\<Sum>r\<leftarrow>rows. vdot r r) - (\<Sum>s\<leftarrow>sigmas. s * s) \<le> last sigmas * last sigmas)"

definition two_edges_file :: "string list" where
  "two_edges_file = [''4 2'', ''0 0 10 10'', ''0 1 2'', ''2 3 1'']"

definition two_edges_matrix :: csr where
  "two_edges_matrix = dense [[0, 2, 0, 0], [2, 0, 0, 0], [0, 0, 0, 1], [0, 0, 1, 0]]"

text \<open>
  The bound behind the early break: the singular value \<open>\<sigma>[i+1]\<close> is at least the peeling
  score of every candidate from iteration \<open>i + 1\<close> on.
\<close>

definition bound_valid :: "(nat \<Rightarrow> npfloat \<times> nat list) \<Rightarrow> real list \<Rightarrow> nat \<Rightarrow> bool" where
  "bound_valid cand sigmas k \<longleftrightarrow>
     (\<forall>i \<in> set [0..<k]. Suc i < k \<longrightarrow>
        (\<forall>j \<in> set [Suc i..<k]. np_le (fst (cand j)) (Fin (sigmas ! Suc i))))"

text \<open>
  A sequence of membership sets in which every set is the one before it with exactly
  one of its vertices removed.
\<close>

fun shrinking :: "nat list list \<Rightarrow> bool" where
  "shrinking (a # b # rest) = ((\<exists>v \<in> set a. set b = set a - {v}) \<and> shrinking (b # rest))"
| "shrinking _ = True"

text \<open>
  The invariant of the lazy heap: the membership list has no duplicates, and every member
  has at least one entry in the heap.
\<close>

definition heap_covers :: "peel_state \<Rightarrow> bool" where
  "heap_covers st \<longleftrightarrow> distinct (nodes st) \<and> set (nodes st) \<subseteq> snd ` set (heap st)"





text \<open>The capacity attribute of the arcs of a network, as a map.\<close>

definition amap :: "digraph \<Rightarrow> fnode \<times> fnode \<Rightarrow> real option" where
  "amap g = map_of (garcs g)"

section \<open>Properties of the graph loader\<close>

lemma those_map_length: "those (map f xs) = Some ys \<Longrightarrow> length ys = length xs"
  by (induction xs arbitrary: ys) (auto split: option.splits)

text \<open>Reading \<open>k\<close> edge lines from fewer than \<open>k\<close> remaining lines hits the end of the file.\<close>

lemma read_edges_short:
  "length ls < k \<Longrightarrow> read_edges pint pfloat k ls = Inl ValueError"
proof (induction k arbitrary: ls)
  case 0
  then show ?case by simp
next
  case (Suc k)
  show ?case
  proof (cases ls)
    case Nil
    then show ?thesis by (simp add: readline_def split_def)
  next
    case (Cons l rest)
    with Suc.prems have "length rest < k" by simp
    then have "read_edges pint pfloat k rest = Inl ValueError" by (rule Suc.IH)
    with Cons show ?thesis
      by (simp add: readline_def split: list.splits option.splits)
  qed
qed

lemma readline_twice: "snd (readline (snd (readline ls))) = drop 2 ls"
  by (cases ls; cases "tl ls") (auto simp: readline_def)

text \<open>
  Claim C3, as amended. When the first line declares \<open>n\<close> and \<open>m\<close>, the loader raises
  \<open>ValueError\<close> whenever the second line does not hold exactly \<open>n\<close> tokens, or fewer than
  \<open>m\<close> lines follow the second one. (The loader never compares an edge endpoint with
  \<open>n\<close>: see the counterexample below.)
\<close>

theorem load_from_file_rejects:
  assumes hdr: "those (map pint (split (fst (readline ls)))) = Some [n, m]"
    and bad: "int (length (split (fst (readline (snd (readline ls)))))) \<noteq> n
              \<or> int (length (drop 2 ls)) < m"
  shows "load_from_file pint pfloat ls = Inl ValueError"
proof -
  obtain l1 r1 where r1: "readline ls = (l1, r1)" by (cases "readline ls")
  obtain l2 r2 where r2: "readline r1 = (l2, r2)" by (cases "readline r1")
  have d: "r2 = drop 2 ls" using readline_twice [of ls] r1 r2 by simp
  from hdr r1 have h: "those (map pint (split l1)) = Some [n, m]" by simp
  show ?thesis
  proof (cases "those (map pfloat (split l2))")
    case None
    with h r1 r2 show ?thesis by (simp add: load_from_file_def)
  next
    case (Some ws)
    then have len: "length ws = length (split l2)" by (rule those_map_length)
    show ?thesis
    proof (cases "int (length ws) = n")
      case False
      with h r1 r2 Some show ?thesis by (simp add: load_from_file_def)
    next
      case True
      with bad len r1 r2 d have "int (length r2) < m" by simp
      then have "length r2 < nat m" by linarith
      then have "read_edges pint pfloat (nat m) r2 = Inl ValueError" by (rule read_edges_short)
      with h r1 r2 Some True show ?thesis by (simp add: load_from_file_def)
    qed
  qed
qed

text \<open>
  The theorem at two files: one declares two edges and holds one edge line, the other
  declares three vertices and holds two node weights.
\<close>

theorem load_from_file_rejects_witness:
  "load_from_file dec_int dec_float [''3 2'', ''1.0 1.0 1.0'', ''0 1 1.0''] = Inl ValueError
   \<and> load_from_file dec_int dec_float [''3 1'', ''1.0 1.0'', ''0 1 1.0''] = Inl ValueError"
proof -
  have a: "those (map dec_int (split (fst (readline [''3 2'', ''1.0 1.0 1.0'', ''0 1 1.0''])))) = Some [3, 2]"
    by code_simp
  have b: "int (length (drop 2 [''3 2'', ''1.0 1.0 1.0'', ''0 1 1.0''])) < 2" by simp
  have c: "those (map dec_int (split (fst (readline [''3 1'', ''1.0 1.0'', ''0 1 1.0''])))) = Some [3, 1]"
    by code_simp
  have d: "int (length (split (fst (readline (snd (readline [''3 1'', ''1.0 1.0'', ''0 1 1.0'']))))))  \<noteq> 3"
    by code_simp
  show ?thesis
    using load_from_file_rejects [of dec_int _ 3 2 dec_float, OF a disjI2 [OF b]]
      load_from_file_rejects [of dec_int _ 3 1 dec_float, OF c disjI1 [OF d]]
    by simp
qed

text \<open>
  Claim C3 as stated fails: a file with two vertices whose only edge names vertex 5 is
  loaded without any error, and the edge \<open>(0, 5)\<close> is part of the graph.
\<close>

theorem load_from_file_range_counterexample:
  "load_from_file dec_int dec_float [''2 1'', ''1.0 1.5'', ''0 5 1.0'']
     = Inr \<lparr>gn = 2, gm = 1, node_weights = [0, 1, 3 / 2], edges = [(0, 5, 1)]\<rparr>"
  by code_simp

section \<open>Properties of the peeling engine\<close>

lemma pop_valid_None: "pop_valid ns h = None \<Longrightarrow> snd ` set h \<inter> set ns = {}"
  by (induction ns h rule: pop_valid.induct) (auto split: if_splits)

lemma pop_valid_rest:
  "pop_valid ns h = Some ((d, v), h') \<Longrightarrow> u \<in> set ns \<Longrightarrow> u \<noteq> v \<Longrightarrow> u \<in> snd ` set h
     \<Longrightarrow> u \<in> snd ` set h'"
  by (induction ns h rule: pop_valid.induct) (auto split: if_splits)

lemma heap_fold_relax: "set (heap st) \<subseteq> set (heap (fold (relax A v) us st))"
  by (induction us arbitrary: st) (fastforce simp: relax_def Let_def set_insort_key)+

lemma heap_covers_step:
  assumes "heap_covers st" and "pop_valid (nodes st) (heap st) = Some ((d, v), h)"
  shows "heap_covers (remove_vertex A v (st\<lparr>heap := h\<rparr>))"
proof -
  let ?st' = "st\<lparr>heap := h, nodes := removeAll v (nodes st)\<rparr>"
  have sub: "set (nodes st) \<subseteq> snd ` set (heap st)" and dist: "distinct (nodes st)"
    using assms(1) by (simp_all add: heap_covers_def)
  have "set (removeAll v (nodes st)) \<subseteq> snd ` set h"
  proof
    fix u assume "u \<in> set (removeAll v (nodes st))"
    then have u: "u \<in> set (nodes st)" "u \<noteq> v" by auto
    with sub have "u \<in> snd ` set (heap st)" by blast
    with u show "u \<in> snd ` set h" using pop_valid_rest [OF assms(2)] by blast
  qed
  moreover have "set (heap ?st') \<subseteq> set (heap (fold (relax A v) (indices A v) ?st'))"
    by (rule heap_fold_relax)
  then have "snd ` set h \<subseteq> snd ` set (heap (fold (relax A v) (indices A v) ?st'))"
    by auto
  ultimately have "set (removeAll v (nodes st))
      \<subseteq> snd ` set (heap (fold (relax A v) (indices A v) ?st'))" by blast
  then show ?thesis
    using dist unfolding heap_covers_def remove_vertex_def
    by (simp add: nodes_fold_relax distinct_removeAll)
qed

lemma heap_covers_record: "heap_covers (record_score n P Q st) = heap_covers st"
  by (simp add: heap_covers_def record_score_def Let_def)

lemma heap_covers_init: "heap_covers (greedy_init A)"
  by (auto simp: heap_covers_def greedy_init_def image_iff)

lemma visited_hd: "hd (greedy_visited A P Q st) = nodes st"
  by (subst greedy_visited.simps) simp

lemma visited_props:
  "heap_covers st \<Longrightarrow>
     last (greedy_visited A P Q st) = [] \<and> shrinking (greedy_visited A P Q st)
     \<and> length (greedy_visited A P Q st) = Suc (length (nodes st))"
proof (induction A P Q st rule: greedy_visited.induct)
  case (1 A P Q st)
  show ?case
  proof (cases "nodes st = []")
    case True
    then show ?thesis by (subst (1 2 3) greedy_visited.simps) simp
  next
    case False
    define st1 where "st1 = record_score (dim A) P Q st"
    have c1: "heap_covers st1" using "1.prems" by (simp add: st1_def heap_covers_record)
    have n1: "nodes st1 = nodes st" by (simp add: st1_def nodes_record_score)
    have "pop_valid (nodes st1) (heap st1) \<noteq> None"
    proof
      assume "pop_valid (nodes st1) (heap st1) = None"
      then have e: "snd ` set (heap st1) \<inter> set (nodes st1) = {}" by (rule pop_valid_None)
      have "set (nodes st1) \<subseteq> snd ` set (heap st1)"
        using c1 by (simp add: heap_covers_def)
      then have "snd ` set (heap st1) \<inter> set (nodes st1) = set (nodes st1)"
        by (rule Int_absorb1)
      with e have "set (nodes st1) = {}" by simp
      with False n1 show False by simp
    qed
    then obtain d v h where pv: "pop_valid (nodes st1) (heap st1) = Some ((d, v), h)" by auto
    let ?st2 = "remove_vertex A v (st1\<lparr>heap := h\<rparr>)"
    have c2: "heap_covers ?st2" using c1 pv by (rule heap_covers_step)
    have IH: "last (greedy_visited A P Q ?st2) = [] \<and> shrinking (greedy_visited A P Q ?st2)
       \<and> length (greedy_visited A P Q ?st2) = Suc (length (nodes ?st2))"
      using "1.IH" [OF False st1_def pv refl refl c2] .
    have unf: "greedy_visited A P Q st = nodes st # greedy_visited A P Q ?st2"
      using False pv by (subst greedy_visited.simps) (simp add: st1_def [symmetric])
    have vin: "v \<in> set (nodes st)" using pop_valid_member [OF pv] n1 by simp
    have n2: "nodes ?st2 = removeAll v (nodes st)" by (simp add: nodes_remove_vertex n1)
    have "\<exists>rest. greedy_visited A P Q ?st2 = nodes ?st2 # rest"
      by (subst greedy_visited.simps) simp
    then obtain b rest where br: "greedy_visited A P Q ?st2 = b # rest" and b: "b = nodes ?st2"
      by blast
    have dist: "distinct (nodes st)" using "1.prems" by (simp add: heap_covers_def)
    have len: "length (removeAll v (nodes st)) = length (nodes st) - 1"
      using dist vin by (simp add: distinct_remove1_removeAll [symmetric] length_remove1)
    have "length (nodes st) > 0" using False by simp
    with IH unf br b n2 vin len show ?thesis by auto
  qed
qed

lemma best_in_visited:
  "best_nodes (greedy_loop A P Q st) \<in> insert (best_nodes st) (set (greedy_visited A P Q st))"
proof (induction A P Q st rule: greedy_loop.induct)
  case (1 A P Q st)
  show ?case
  proof (cases "nodes st = []")
    case True
    then show ?thesis by (subst greedy_loop.simps) simp
  next
    case False
    define st1 where "st1 = record_score (dim A) P Q st"
    have b1: "best_nodes st1 = best_nodes st \<or> best_nodes st1 = nodes st"
      by (simp add: st1_def record_score_def Let_def)
    show ?thesis
    proof (cases "pop_valid (nodes st1) (heap st1)")
      case None
      with False b1 show ?thesis
        by (subst greedy_loop.simps, subst greedy_visited.simps) (auto simp: st1_def [symmetric])
    next
      case (Some r)
      obtain d v h where r: "r = ((d, v), h)" by (metis surj_pair)
      let ?st2 = "remove_vertex A v (st1\<lparr>heap := h\<rparr>)"
      have b2: "best_nodes ?st2 = best_nodes st1"
      proof -
        have "\<And>us s. best_nodes (fold (relax A v) us s) = best_nodes s"
          subgoal for us s by (induction us arbitrary: s) (auto simp: relax_def Let_def)
          done
        then show ?thesis by (simp add: remove_vertex_def)
      qed
      have IH: "best_nodes (greedy_loop A P Q ?st2)
                  \<in> insert (best_nodes ?st2) (set (greedy_visited A P Q ?st2))"
        using "1.IH" [OF False st1_def Some [unfolded r] refl refl] .
      have l: "greedy_loop A P Q st = greedy_loop A P Q ?st2"
        using False Some r by (subst greedy_loop.simps) (simp add: st1_def [symmetric])
      have t: "greedy_visited A P Q st = nodes st # greedy_visited A P Q ?st2"
        using False Some r by (subst greedy_visited.simps) (simp add: st1_def [symmetric])
      from IH b1 b2 show ?thesis unfolding l t by auto
    qed
  qed
qed

text \<open>
  Claim C5. For every matrix triple, the membership sets seen by the peeling loop start
  with the full vertex set \<open>{0..<n}\<close>, end with the empty set, each is the one before it
  with exactly one vertex removed (so there are \<open>n + 1\<close> of them), and the returned
  \<open>best_nodes\<close> is one of them.
\<close>

theorem greedy_peeling_nested:
  "hd (greedy_visited A P Q (greedy_init A)) = [0..<dim A]
   \<and> last (greedy_visited A P Q (greedy_init A)) = []
   \<and> shrinking (greedy_visited A P Q (greedy_init A))
   \<and> length (greedy_visited A P Q (greedy_init A)) = Suc (dim A)
   \<and> snd (greedy A P Q) \<in> set (greedy_visited A P Q (greedy_init A))"
proof -
  let ?tr = "greedy_visited A P Q (greedy_init A)"
  have h: "hd ?tr = [0..<dim A]" by (simp add: visited_hd greedy_init_def)
  have "?tr \<noteq> []" by (subst greedy_visited.simps) simp
  with h have m: "[0..<dim A] \<in> set ?tr" by (metis hd_in_set)
  have "best_nodes (greedy_loop A P Q (greedy_init A)) \<in> insert (best_nodes (greedy_init A)) (set ?tr)"
    by (rule best_in_visited)
  with m have b: "snd (greedy A P Q) \<in> set ?tr"
    by (auto simp: greedy_def Let_def greedy_init_def)
  have "length (nodes (greedy_init A)) = dim A" by (simp add: greedy_init_def)
  with visited_props [OF heap_covers_init, of A P Q] h b show ?thesis by simp
qed

text \<open>The claim on the path \<open>1 - 0 - 2\<close>: vertex 1 goes first, then vertex 0, then vertex 2.\<close>

theorem greedy_peeling_nested_witness:
  "greedy_visited (dense [[0, 1, 1], [1, 0, 0], [1, 0, 0]]) (dense [[0, 1, 1], [1, 0, 0], [1, 0, 0]])
       (identity 3) (greedy_init (dense [[0, 1, 1], [1, 0, 0], [1, 0, 0]]))
     = [[0, 1, 2], [0, 2], [2], []]
   \<and> shrinking [[0, 1, 2], [0, 2], [2], []]
   \<and> snd (greedy (dense [[0, 1, 1], [1, 0, 0], [1, 0, 0]]) (dense [[0, 1, 1], [1, 0, 0], [1, 0, 0]])
         (identity 3)) \<in> set [[0, 1, 2], [0, 2], [2], []]"
proof -
  let ?A = "dense [[0, 1, 1], [1, 0, 0], [1, 0, 0]]"
  have e: "greedy_visited ?A ?A (identity 3) (greedy_init ?A) = [[0, 1, 2], [0, 2], [2], []]"
    by code_simp
  show ?thesis
    using greedy_peeling_nested [of ?A ?A "identity 3"] unfolding e by blast
qed


section \<open>Charikar peeling refines the generic engine in exact arithmetic\<close>



















section \<open>Properties of the parametric flow engine\<close>

lemma amap_add_node: "amap (add_node a g) = amap g"
  by (simp add: amap_def add_node_def)

lemma amap_add_edge: "amap (add_edge a b c g) = (amap g)((a, b) \<mapsto> c)"
  by (simp add: amap_def add_edge_def Let_def add_node_def update_conv')

lemma gnodes_add_node: "set (gnodes (add_node a g)) = insert a (set (gnodes g))"
  by (auto simp: add_node_def)

lemma gnodes_add_edge: "set (gnodes (add_edge a b c g)) = insert a (insert b (set (gnodes g)))"
  by (auto simp: add_edge_def Let_def gnodes_add_node)

lemma fold_add_node:
  "set (gnodes (fold (\<lambda>u. add_node (Vtx u)) us g)) = Vtx ` set us \<union> set (gnodes g)
   \<and> amap (fold (\<lambda>u. add_node (Vtx u)) us g) = amap g"
  by (induction us arbitrary: g) (auto simp: gnodes_add_node amap_add_node)

lemma fold_edges_nodes:
  "set (gnodes (fold add_undirected es g)) = Vtx ` (fst ` set es \<union> snd ` set es) \<union> set (gnodes g)"
  by (induction es arbitrary: g) (auto simp: add_undirected_def gnodes_add_edge)

lemma add_undirected_map:
  "amap (add_undirected (u, v) g) = (amap g)((Vtx u, Vtx v) \<mapsto> 1, (Vtx v, Vtx u) \<mapsto> 1)"
  by (simp only: add_undirected_def prod.case amap_add_edge)

lemma add_undirected_arcs:
  "amap (add_undirected (u, v) g) k =
     (if k = (Vtx u, Vtx v) \<or> k = (Vtx v, Vtx u) then Some 1 else amap g k)"
proof (cases "k = (Vtx v, Vtx u)")
  case True
  then show ?thesis by (simp only: add_undirected_map fun_upd_same if_True simp_thms)
next
  case False
  note ne = this
  show ?thesis
  proof (cases "k = (Vtx u, Vtx v)")
    case True
    have "((amap g)((Vtx u, Vtx v) \<mapsto> 1, (Vtx v, Vtx u) \<mapsto> 1)) k
            = ((amap g)((Vtx u, Vtx v) \<mapsto> 1)) k"
      using ne by (rule fun_upd_other)
    then have "amap (add_undirected (u, v) g) k = ((amap g)((Vtx u, Vtx v) \<mapsto> 1)) k"
      by (simp only: add_undirected_map)
    also have "\<dots> = Some 1" using True by (simp only: fun_upd_same)
    finally show ?thesis using True by (simp only: if_True simp_thms)
  next
    case False
    have "((amap g)((Vtx u, Vtx v) \<mapsto> 1, (Vtx v, Vtx u) \<mapsto> 1)) k
            = ((amap g)((Vtx u, Vtx v) \<mapsto> 1)) k"
      using ne by (rule fun_upd_other)
    then have "amap (add_undirected (u, v) g) k = ((amap g)((Vtx u, Vtx v) \<mapsto> 1)) k"
      by (simp only: add_undirected_map)
    also have "\<dots> = amap g k" using False by (rule fun_upd_other)
    finally show ?thesis using False ne by (simp only: if_False simp_thms)
  qed
qed

lemma fold_edges_arcs:
  "amap (fold add_undirected es g) k =
     (if \<exists>u v. (u, v) \<in> set es \<and> (k = (Vtx u, Vtx v) \<or> k = (Vtx v, Vtx u))
      then Some 1 else amap g k)"
proof (induction es arbitrary: g)
  case Nil
  then show ?case by simp
next
  case (Cons e es)
  obtain u v where e: "e = (u, v)" by (cases e)
  let ?hit = "\<lambda>xs. \<exists>u v. (u, v) \<in> set xs \<and> (k = (Vtx u, Vtx v) \<or> k = (Vtx v, Vtx u))"
  have IH: "amap (fold add_undirected es (add_undirected e g)) k =
          (if ?hit es then Some 1 else amap (add_undirected e g) k)"
    by (rule Cons.IH)
  have hd: "amap (add_undirected e g) k =
          (if k = (Vtx u, Vtx v) \<or> k = (Vtx v, Vtx u) then Some 1 else amap g k)"
    unfolding e by (rule add_undirected_arcs)
  have split: "?hit (e # es) \<longleftrightarrow> (k = (Vtx u, Vtx v) \<or> k = (Vtx v, Vtx u)) \<or> ?hit es"
    unfolding e by auto
  have fold_step: "fold add_undirected (e # es) g = fold add_undirected es (add_undirected e g)"
    by simp
  show ?case
  proof (cases "?hit (e # es)")
    case True
    have "amap (fold add_undirected es (add_undirected e g)) k = Some 1"
    proof (cases "?hit es")
      case True
      then show ?thesis using IH by (simp only: if_True)
    next
      case False
      with True split have "k = (Vtx u, Vtx v) \<or> k = (Vtx v, Vtx u)" by blast
      then have "amap (add_undirected e g) k = Some 1" using hd by (simp only: if_True)
      then show ?thesis using IH False by (simp only: if_False)
    qed
    then show ?thesis unfolding fold_step using True by (simp only: if_True)
  next
    case False
    with split have a: "\<not> ?hit es" and b: "\<not> (k = (Vtx u, Vtx v) \<or> k = (Vtx v, Vtx u))"
      by blast+
    have "amap (fold add_undirected es (add_undirected e g)) k = amap g k"
      using IH hd a b by (simp only: if_False)
    then show ?thesis unfolding fold_step using False by (simp only: if_False)
  qed
qed

lemma fold_caps_nodes:
  "set (gnodes (fold (add_terminals m lam deg) us g))
     = (if us = [] then {} else {Src, Snk}) \<union> Vtx ` set us \<union> set (gnodes g)"
  by (induction us arbitrary: g) (auto simp: add_terminals_def Let_def gnodes_add_edge)

lemma fold_caps_arcs:
  "amap (fold (add_terminals m lam deg) us g) k =
     (case k of
        (Src, Vtx u) \<Rightarrow> if u \<in> set us then Some (of_int m) else amap g k
      | (Vtx u, Snk) \<Rightarrow>
          if u \<in> set us then Some (max 0 (of_int m + 2 * lam - of_int (deg ! nat u))) else amap g k
      | _ \<Rightarrow> amap g k)"
proof (induction us arbitrary: g)
  case Nil
  then show ?case by (simp split: prod.splits fnode.splits)
next
  case (Cons a us)
  show ?case
    by (simp add: Cons.IH) (auto simp: add_terminals_def Let_def amap_add_edge split: prod.splits fnode.splits)
qed

lemma amap_empty: "amap empty_digraph k = None"
  by (simp add: amap_def empty_digraph_def)

lemma upto_set: "set [0..n - 1] = {0..<n}"
  by auto

text \<open>
  Claim C7. For a graph in the sense of the data model (\<open>m \<ge> 0\<close>, a degree entry for
  every vertex, every edge endpoint in \<open>[0, n)\<close>) and every \<open>\<lambda>\<close>, the network is built
  without error; its node set is \<open>{0..<n}\<close> with the source and the sink; every edge
  \<open>(u, v)\<close> gives the arcs \<open>u \<rightarrow> v\<close> and \<open>v \<rightarrow> u\<close> of capacity 1; every vertex \<open>v\<close> has an
  arc from the source of capacity \<open>m\<close> and an arc to the sink of capacity
  \<open>max(0, m + 2\<lambda> - deg(v))\<close>; and every capacity in the network is non-negative.
\<close>

theorem build_flow_network_shape:
  assumes m: "0 \<le> m" and len: "n \<le> int (length deg)"
    and rng: "\<forall>(u, v) \<in> set es. 0 \<le> u \<and> u < n \<and> 0 \<le> v \<and> v < n"
  shows "\<exists>Gf. build_flow_network n m es lam deg = Inr Gf
      \<and> set (gnodes Gf) = Vtx ` {0..<n} \<union> {Src, Snk}
      \<and> (\<forall>(u, v) \<in> set es. map_of (garcs Gf) (Vtx u, Vtx v) = Some 1
                               \<and> map_of (garcs Gf) (Vtx v, Vtx u) = Some 1)
      \<and> (\<forall>v \<in> {0..<n}. map_of (garcs Gf) (Src, Vtx v) = Some (of_int m)
            \<and> map_of (garcs Gf) (Vtx v, Snk)
                 = Some (max 0 (of_int m + 2 * lam - of_int (deg ! nat v))))
      \<and> (\<forall>a b c. map_of (garcs Gf) (a, b) = Some c \<longrightarrow> 0 \<le> c)"
proof -
  define Gf0 where "Gf0 = add_node Snk (add_node Src (fold (\<lambda>u. add_node (Vtx u)) [0..n - 1] empty_digraph))"
  define Gf1 where "Gf1 = fold add_undirected es Gf0"
  define Gf where "Gf = fold (add_terminals m lam deg) [0..n - 1] Gf1"
  have res: "build_flow_network n m es lam deg = Inr Gf"
    using len by (simp add: build_flow_network_def Let_def Gf_def Gf1_def Gf0_def)
  have n0: "set (gnodes Gf0) = Vtx ` {0..<n} \<union> {Src, Snk}"
    unfolding Gf0_def by (auto simp: gnodes_add_node fold_add_node empty_digraph_def)
  have a0: "amap Gf0 k = None" for k
    unfolding Gf0_def by (simp add: amap_add_node fold_add_node amap_empty)
  have ends: "Vtx ` (fst ` set es \<union> snd ` set es) \<subseteq> Vtx ` {0..<n}"
    using rng by fastforce
  have n1: "set (gnodes Gf1) = Vtx ` {0..<n} \<union> {Src, Snk}"
    unfolding Gf1_def fold_edges_nodes n0 using ends by blast
  have nodes: "set (gnodes Gf) = Vtx ` {0..<n} \<union> {Src, Snk}"
    unfolding Gf_def fold_caps_nodes n1 upto_set by auto
  have a1: "amap Gf1 k =
      (if \<exists>u v. (u, v) \<in> set es \<and> (k = (Vtx u, Vtx v) \<or> k = (Vtx v, Vtx u)) then Some 1
       else None)" for k
    unfolding Gf1_def fold_edges_arcs a0 ..
  have vv: "amap Gf (Vtx u, Vtx v) = amap Gf1 (Vtx u, Vtx v)" for u v
    unfolding Gf_def fold_caps_arcs by simp
  have e1: "amap Gf (Vtx u, Vtx v) = Some 1 \<and> amap Gf (Vtx v, Vtx u) = Some 1"
    if "(u, v) \<in> set es" for u v
    using that unfolding vv a1 by auto
  have t1: "amap Gf (Src, Vtx v) = Some (of_int m)
            \<and> amap Gf (Vtx v, Snk) = Some (max 0 (of_int m + 2 * lam - of_int (deg ! nat v)))"
    if "v \<in> {0..<n}" for v
    using that unfolding Gf_def fold_caps_arcs by (simp add: upto_set)
  have nonneg: "0 \<le> c" if "amap Gf (a, b) = Some c" for a b c
  proof -
    have "amap Gf1 (a, b) = Some c \<Longrightarrow> 0 \<le> c"
      unfolding a1 by (simp split: if_splits)
    then show ?thesis
      using that m unfolding Gf_def fold_caps_arcs
      by (auto split: fnode.splits if_splits)
  qed
  show ?thesis
    using res nodes e1 t1 nonneg unfolding amap_def by blast
qed

text \<open>
  The claim on the single edge \<open>(0, 1)\<close> with \<open>\<lambda> = 1/2\<close>.
\<close>

theorem build_flow_network_shape_witness:
  "0 \<le> (1::int) \<and> (2::int) \<le> int (length [1, 1::int])
   \<and> (\<exists>Gf. build_flow_network 2 1 [(0, 1)] (1 / 2) [1, 1] = Inr Gf
         \<and> set (gnodes Gf) = Vtx ` {0..<2} \<union> {Src, Snk}
         \<and> map_of (garcs Gf) (Vtx 0, Vtx 1) = Some 1
         \<and> map_of (garcs Gf) (Vtx 1, Vtx 0) = Some 1
         \<and> map_of (garcs Gf) (Src, Vtx 1) = Some 1
         \<and> map_of (garcs Gf) (Vtx 1, Snk) = Some 1)"
proof -
  have m: "0 \<le> (1::int)" and len: "(2::int) \<le> int (length [1, 1::int])" by simp_all
  have rng: "\<forall>(u, v) \<in> set [(0::int, 1::int)]. 0 \<le> u \<and> u < 2 \<and> 0 \<le> v \<and> v < 2" by simp
  from build_flow_network_shape [OF m len rng, of "1 / 2"]
  obtain Gf where r: "build_flow_network 2 1 [(0, 1)] (1 / 2) [1, 1] = Inr Gf"
    and n: "set (gnodes Gf) = Vtx ` {0..<2} \<union> {Src, Snk}"
    and e: "\<forall>(u, v) \<in> set [(0::int, 1::int)]. map_of (garcs Gf) (Vtx u, Vtx v) = Some 1
                               \<and> map_of (garcs Gf) (Vtx v, Vtx u) = Some 1"
    and t: "\<forall>v \<in> {0..<2}. map_of (garcs Gf) (Src, Vtx v) = Some (of_int 1)
            \<and> map_of (garcs Gf) (Vtx v, Snk)
                 = Some (max 0 (of_int 1 + 2 * (1 / 2) - of_int ([1, 1] ! nat v)))"
    by blast
  from t have "map_of (garcs Gf) (Src, Vtx 1) = Some (of_int 1)
            \<and> map_of (garcs Gf) (Vtx 1, Snk)
                 = Some (max 0 (of_int 1 + 2 * (1 / 2) - of_int ([1, 1] ! nat 1)))"
    by (rule bspec) simp
  then have t1: "map_of (garcs Gf) (Src, Vtx 1) = Some 1 \<and> map_of (garcs Gf) (Vtx 1, Snk) = Some 1"
    by simp
  from e have "map_of (garcs Gf) (Vtx 0, Vtx 1) = Some 1 \<and> map_of (garcs Gf) (Vtx 1, Vtx 0) = Some 1"
    by simp
  with m len r n t1 show ?thesis by blast
qed

lemma flow_search_stop:
  "\<not> r - l > eps \<Longrightarrow> flow_search mincut n m es deg eps l r best_S = Some (Inr best_S)"
  by (subst flow_search.simps) simp

text \<open>
  Without edges the search loop is not entered (for \<open>eps \<ge> 0\<close>), and on at least one
  vertex the engine returns density 0 over the full vertex set.
\<close>

lemma flow_no_edges:
  assumes "0 \<le> eps" and "1 \<le> n"
  shows "densest_subgraph_core mincut n 0 [] eps = Some (Inr (0, map Vtx [0..n - 1]))"
proof -
  have "set (map Vtx [0..n - 1]) \<noteq> {}" using assms(2) by simp
  then have "card (set (map Vtx [0..n - 1])) \<noteq> 0" by (simp del: set_map)
  then show ?thesis
    using assms(1) by (simp add: densest_subgraph_core_def flow_search_stop del: set_map)
qed

text \<open>
  Claim C8 at the empty graph (file \<open>0 0\<close> and an empty weight line): whatever the
  minimum-cut solver, \<open>best_S\<close> is still the empty initial set when the final division
  \<open>sub_edges / len(best_S)\<close> runs, and the engine raises \<open>ZeroDivisionError\<close>: the
  division is not guarded.
\<close>

theorem flow_empty_graph_division:
  "densest_subgraph_exact mincut dec_int [''0 0'', ''''] (1 / 10) = Some (Inl ZeroDivisionError)"
proof -
  have rg: "read_graph dec_int [''0 0'', ''''] = Inr (0, 0, [])" by code_simp
  show ?thesis
    by (simp add: densest_subgraph_exact_def rg densest_subgraph_core_def flow_search_stop)
qed

text \<open>
  Claim C6. On the complete graph on \<open>{0,1,2,3}\<close> with the pendant edge \<open>(0,4)\<close>, all
  weights one: \<open>charikar\<close> scores 7/5 on the full vertex set, removes vertex 4, scores
  6/4 = 3/2 on \<open>{0,1,2,3}\<close>, goes on with lower scores, and returns 3/2 with
  \<open>{0,1,2,3}\<close>; the parametric flow engine with \<open>\<epsilon> = 1/10\<close> returns density 3/2 over
  \<open>{0,1,2,3}\<close>, the minimum cuts being found by exhaustive search.
\<close>

theorem K4_pendant_scenario:
  "load_from_file dec_int dec_float K4_pendant_file = Inr K4_pendant
   \<and> charikar_run_scores K4_pendant
       = Inr [([0, 1, 2, 3, 4], Fin (7 / 5)), ([0, 1, 2, 3], Fin (3 / 2)), ([1, 2, 3], Fin 1),
              ([2, 3], Fin (1 / 2)), ([3], Fin 0)]
   \<and> charikar dec_int dec_float K4_pendant_file = Inr (Fin (3 / 2), [0, 1, 2, 3])
   \<and> densest_subgraph_exact minimum_cut dec_int K4_pendant_file (1 / 10)
       = Some (Inr (3 / 2, [Vtx 0, Vtx 1, Vtx 2, Vtx 3]))"
proof -
  have a: "load_from_file dec_int dec_float K4_pendant_file = Inr K4_pendant"
    by code_simp
  have b: "charikar_run_scores K4_pendant
       = Inr [([0, 1, 2, 3, 4], Fin (7 / 5)), ([0, 1, 2, 3], Fin (3 / 2)), ([1, 2, 3], Fin 1),
              ([2, 3], Fin (1 / 2)), ([3], Fin 0)]"
    by code_simp
  have c: "charikar dec_int dec_float K4_pendant_file = Inr (Fin (3 / 2), [0, 1, 2, 3])"
    by code_simp
  have d: "densest_subgraph_exact minimum_cut dec_int K4_pendant_file (1 / 10)
       = Some (Inr (3 / 2, [Vtx 0, Vtx 1, Vtx 2, Vtx 3]))"
    by code_simp
  from a b c d show ?thesis by (intro conjI)
qed

section \<open>The denominator guard in floating-point arithmetic\<close>

text \<open>Rounding to binary64: powers of two up to \<open>2\<^sup>1\<^sup>0\<^sup>2\<^sup>3\<close> are floats, and \<open>2\<^sup>1\<^sup>0\<^sup>2\<^sup>4\<close> or more rounds to infinity.\<close>

lemma bitlen_one: "bitlen 1 = 1"
  by (simp add: bitlen_alt_def)

lemma ilog2_ge:
  assumes "2 ^ N \<le> x"
  shows "int N \<le> ilog2 x"
proof -
  have "(1::real) \<le> 2 ^ N" by simp
  with assms have x1: "1 \<le> x" by linarith
  have z: "(2::int) ^ N \<le> \<lfloor>x\<rfloor>" using assms by (simp add: le_floor_iff)
  then have zpos: "0 < \<lfloor>x\<rfloor>" by (smt (verit) zero_less_power)
  from bitlen_bounds [OF zpos] have "\<lfloor>x\<rfloor> < 2 ^ nat (bitlen \<lfloor>x\<rfloor>)" by simp
  with z have "(2::int) ^ N < 2 ^ nat (bitlen \<lfloor>x\<rfloor>)" by linarith
  then have "N < nat (bitlen \<lfloor>x\<rfloor>)" by simp
  then have "int N \<le> bitlen \<lfloor>x\<rfloor> - 1" by linarith
  with x1 show ?thesis by (simp add: ilog2_def)
qed

lemma round64_overflow:
  assumes "2 ^ N \<le> x" and "1024 \<le> N"
  shows "round64 x = PosInf"
proof -
  have "int N \<le> ilog2 x" using assms(1) by (rule ilog2_ge)
  with assms(2) have e: "1023 < ilog2 x" by linarith
  have "(0::real) < 2 ^ N" by simp
  with assms(1) have pos: "0 < x" by linarith
  then have a: "\<bar>x\<bar> = x" by simp
  show ?thesis
    unfolding round64_def Let_def a using e pos by simp
qed

lemma ilog2_pow2: "ilog2 (2 ^ n) = int n"
proof -
  have "bitlen (1 * 2 ^ n) = bitlen 1 + int n" by (rule bitlen_pow2) simp
  then have "bitlen (2 ^ n) = int n + 1" by (simp add: bitlen_one)
  moreover have "\<lfloor>(2::real) ^ n\<rfloor> = 2 ^ n" by simp
  ultimately show ?thesis by (simp add: ilog2_def)
qed

lemma round64_pow2:
  assumes "52 \<le> n" and "n \<le> 1023"
  shows "round64 (2 ^ n) = Fin (2 ^ n)"
proof -
  define k where "k = n - 52"
  have n: "n = k + 52" using assms(1) by (simp add: k_def)
  have e: "max (ilog2 (2 ^ n)) (- 1022) = int n" by (simp add: ilog2_pow2)
  have u: "pow2 (int n - 52) = 2 ^ k" by (simp add: pow2_def n)
  have q: "(2::real) ^ n / 2 ^ k = 2 ^ 52" by (simp add: n power_add)
  have r: "round_half_even (2 ^ 52) = 2 ^ 52"
    by (simp add: round_half_even_def Let_def)
  have prod: "(2::real) ^ 52 * 2 ^ k = 2 ^ n" by (simp add: n power_add)
  have a: "\<bar>(2::real) ^ n\<bar> = 2 ^ n" by simp
  have nz: "(2::real) ^ n \<noteq> 0" by simp
  have ne: "(2::int) ^ 52 \<noteq> 2 ^ 53" by simp
  have le: "\<not> 1023 < int n" using assms(2) by simp
  show ?thesis
    unfolding round64_def Let_def a e u q r
    using nz ne le prod by simp
qed

lemma round64_huge: "round64 huge = Fin huge"
  unfolding huge_def by (rule round64_pow2) simp_all

lemma double_pow: "(2::real) ^ Suc n \<le> 2 ^ n + 2 ^ n"
  by simp

lemma round64_huge2: "round64 (huge + huge) = PosInf"
proof -
  have "(2::real) ^ Suc 1023 \<le> huge + huge" unfolding huge_def by (rule double_pow)
  then show ?thesis by (rule round64_overflow) simp
qed

lemma fl_best_fold_relax: "fl_best_score (fold (fl_relax ar A v) us st) = fl_best_score st"
  by (induction us arbitrary: st) (auto simp: fl_relax_def Let_def)

lemma fl_best_remove_vertex: "fl_best_score (fl_remove_vertex ar A v st) = fl_best_score st"
  by (simp add: fl_remove_vertex_def fl_best_fold_relax)

lemma np_lt_NaN: "\<not> np_lt b NaN"
  by (cases b) simp_all

lemma np_lt_PosInf: "\<not> np_lt PosInf s"
  by (cases s) simp_all

lemma fl_record_score_not_NaN:
  "fl_best_score st \<noteq> NaN \<Longrightarrow> fl_best_score (fl_record_score ar n P Q st) \<noteq> NaN"
  by (auto simp: fl_record_score_def Let_def np_lt_NaN)

lemma fl_record_score_PosInf:
  "fl_best_score st = PosInf \<Longrightarrow> fl_best_score (fl_record_score ar n P Q st) = PosInf"
  by (simp add: fl_record_score_def Let_def np_lt_PosInf)

text \<open>A property of the best score that step 1 preserves is preserved by the whole loop.\<close>

lemma fl_greedy_loop_preserves:
  assumes step: "\<And>s. I (fl_best_score s) \<Longrightarrow> I (fl_best_score (fl_record_score ar (dim A) P Q s))"
  shows "I (fl_best_score st) \<Longrightarrow> I (fl_best_score (fl_greedy_loop ar A P Q st))"
proof (induction "length (fl_nodes st)" arbitrary: st rule: less_induct)
  case less
  show ?case
  proof (cases "fl_nodes st = []")
    case True
    with less.prems show ?thesis by (subst fl_greedy_loop.simps) simp
  next
    case False
    define st1 where "st1 = fl_record_score ar (dim A) P Q st"
    have i1: "I (fl_best_score st1)" unfolding st1_def using less.prems by (rule step)
    have n1: "fl_nodes st1 = fl_nodes st" by (simp add: st1_def fl_nodes_record_score)
    show ?thesis
    proof (cases "fl_pop_valid (fl_nodes st1) (fl_heap st1)")
      case None
      with False i1 show ?thesis
        by (subst fl_greedy_loop.simps) (simp add: st1_def [symmetric])
    next
      case (Some r)
      obtain d v h where r: "r = ((d, v), h)" by (metis surj_pair)
      let ?st2 = "fl_remove_vertex ar A v (st1\<lparr>fl_heap := h\<rparr>)"
      have vin: "v \<in> set (fl_nodes st)"
        using Some r fl_pop_valid_member [of "fl_nodes st1" "fl_heap st1" d v h] n1 by simp
      have "length (fl_nodes ?st2) < length (fl_nodes st)"
        using vin n1 by (simp add: fl_nodes_remove_vertex length_removeAll_less)
      moreover have "I (fl_best_score ?st2)" using i1 by (simp add: fl_best_remove_vertex)
      ultimately have "I (fl_best_score (fl_greedy_loop ar A P Q ?st2))" by (rule less.hyps)
      moreover have "fl_greedy_loop ar A P Q st = fl_greedy_loop ar A P Q ?st2"
        using False Some r by (subst fl_greedy_loop.simps) (simp add: st1_def [symmetric])
      ultimately show ?thesis by simp
    qed
  qed
qed

lemma fl_divisors_positive:
  "d \<in> set (fl_divisors ar A P Q st) \<Longrightarrow> np_lt (Fin 0) d"
proof (induction ar A P Q st rule: fl_divisors.induct)
  case (1 ar A P Q st)
  show ?case
  proof (cases "fl_nodes st = []")
    case True
    with "1.prems" show ?thesis by (subst (asm) fl_divisors.simps) simp
  next
    case False
    define st1 where "st1 = fl_record_score ar (dim A) P Q st"
    show ?thesis
    proof (cases "fl_pop_valid (fl_nodes st1) (fl_heap st1)")
      case None
      with "1.prems" False show ?thesis
        by (subst (asm) fl_divisors.simps) (auto simp: st1_def [symmetric] split: if_splits)
    next
      case (Some r)
      obtain d' v h where r: "r = ((d', v), h)" by (metis surj_pair)
      let ?st2 = "fl_remove_vertex ar A v (st1\<lparr>fl_heap := h\<rparr>)"
      have unf: "fl_divisors ar A P Q st =
          (if np_lt (Fin 0) (fl_den ar (dim A) Q st) then [fl_den ar (dim A) Q st] else [])
          @ fl_divisors ar A P Q ?st2"
        using False Some r by (subst fl_divisors.simps) (simp add: st1_def [symmetric])
      from "1.prems" unf have "d \<in> set (fl_divisors ar A P Q ?st2) \<or>
          (np_lt (Fin 0) (fl_den ar (dim A) Q st) \<and> d = fl_den ar (dim A) Q st)"
        by (auto split: if_splits)
      then show ?thesis
        using "1.IH" [OF False st1_def Some [unfolded r] refl refl] by auto
    qed
  qed
qed

text \<open>
  Claim C9, as amended. In every arithmetic (IEEE binary64 included): when the test
  \<open>den > 0\<close> fails for the current membership set, so in particular when
  \<open>x\<^sup>T Q x = 0\<close>, step 1 leaves the state as it is; every denominator by which the
  engine divides is positive, hence not zero; and the returned \<open>best_score\<close> is never NaN.
  (That it is never \<open>+\<infinity>\<close> does not hold: see the overflow below.)
\<close>

theorem fl_greedy_guard:
  "(\<not> np_lt (Fin 0) (fl_den ar n Q st) \<longrightarrow> fl_record_score ar n P Q st = st)
   \<and> (\<forall>d \<in> set (fl_divisors ar A P Q (fl_greedy_init ar A)). np_lt (Fin 0) d \<and> d \<noteq> Fin 0)
   \<and> fst (fl_greedy ar A P Q) \<noteq> NaN"
proof -
  have a: "\<not> np_lt (Fin 0) (fl_den ar n Q st) \<longrightarrow> fl_record_score ar n P Q st = st"
    by (simp add: fl_record_score_def Let_def)
  have b: "np_lt (Fin 0) d \<and> d \<noteq> Fin 0"
    if "d \<in> set (fl_divisors ar A P Q (fl_greedy_init ar A))" for d
  proof -
    from that have "np_lt (Fin 0) d" by (rule fl_divisors_positive)
    then show ?thesis by auto
  qed
  have "fl_best_score (fl_greedy_loop ar A P Q (fl_greedy_init ar A)) \<noteq> NaN"
    by (rule fl_greedy_loop_preserves [where I = "\<lambda>s. s \<noteq> NaN"])
       (simp_all add: fl_record_score_not_NaN fl_greedy_init_def)
  then have c: "fst (fl_greedy ar A P Q) \<noteq> NaN" by (simp add: fl_greedy_def Let_def)
  from a b c show ?thesis by blast
qed

text \<open>
  The claim on a single edge, in binary64: with \<open>Q\<close> the zero matrix the test fails on the
  full vertex set and the state is unchanged; with \<open>Q = I\<close> the engine divides by 2 and
  by 1 and returns the score 1/2.
\<close>

theorem fl_greedy_guard_witness:
  "\<not> np_lt (Fin 0) (fl_den ieee 2 (dense [[0, 0], [0, 0]]) (fl_greedy_init ieee (dense [[0, 1], [1, 0]])))
   \<and> fl_record_score ieee 2 (dense [[0, 1], [1, 0]]) (dense [[0, 0], [0, 0]])
        (fl_greedy_init ieee (dense [[0, 1], [1, 0]]))
       = fl_greedy_init ieee (dense [[0, 1], [1, 0]])
   \<and> fl_divisors ieee (dense [[0, 1], [1, 0]]) (dense [[0, 1], [1, 0]]) (identity 2)
        (fl_greedy_init ieee (dense [[0, 1], [1, 0]])) = [Fin 2, Fin 1]
   \<and> np_lt (Fin 0) (Fin 2) \<and> np_lt (Fin 0) (Fin 1)
   \<and> fl_greedy ieee (dense [[0, 1], [1, 0]]) (dense [[0, 1], [1, 0]]) (identity 2) = (Fin (1 / 2), [0, 1])"
proof -
  let ?A = "dense [[0, 1], [1, 0]]" and ?Z = "dense [[0, 0], [0, 0]]"
  have z: "\<not> np_lt (Fin 0) (fl_den ieee 2 ?Z (fl_greedy_init ieee ?A))"
    by code_simp
  have d: "fl_divisors ieee ?A ?A (identity 2) (fl_greedy_init ieee ?A) = [Fin 2, Fin 1]"
    by code_simp
  have g: "fl_greedy ieee ?A ?A (identity 2) = (Fin (1 / 2), [0, 1])"
    by code_simp
  have s: "fl_record_score ieee 2 ?A ?Z (fl_greedy_init ieee ?A) = fl_greedy_init ieee ?A"
    using fl_greedy_guard [where ar = ieee and n = 2 and Q = ?Z and st = "fl_greedy_init ieee ?A"
        and P = ?A and A = ?A] z by blast
  have p: "np_lt (Fin 0) (Fin 2) \<and> np_lt (Fin 0) (Fin 1)"
    using fl_greedy_guard [where ar = ieee and n = 2 and Q = "identity 2"
        and st = "fl_greedy_init ieee ?A" and P = ?A and A = ?A] d by simp
  from z s d p g show ?thesis by blast
qed

lemma huge_pos: "0 < huge"
  by (simp add: huge_def)

lemma round64_twice_huge: "round64 (2 * huge) = PosInf"
  using round64_huge2 by (simp only: mult_2)

lemma round64_small: "round64 1 = Fin 1" "round64 2 = Fin 2"
  by code_simp+

lemma ieee_ops:
  "fadd ieee = ieee_add" "fsub ieee = ieee_sub" "fmul ieee = ieee_mul" "fdiv ieee = ieee_div"
  "fsum ieee = foldl ieee_add (Fin 0)"
  by (simp_all add: ieee_def)

lemma upt2: "[0..<2] = [0, Suc 0]"
  by (simp add: upt_rec)

lemma overflow_first_pass:
  "fl_best_score (fl_record_score ieee 2 (dense [[0, huge], [huge, 0]]) (identity 2)
       (fl_greedy_init ieee (dense [[0, 1], [1, 0]]))) = PosInf"
proof -
  let ?P = "dense [[0, huge], [huge, 0]]" and ?A = "dense [[0, 1], [1, 0]]"
  let ?x = "fl_indicator [0, Suc 0]"
  have hz: "huge \<noteq> 0" using huge_pos by simp
  have nodes: "fl_nodes (fl_greedy_init ieee ?A) = [0, Suc 0]"
    by (simp add: fl_greedy_init_def dense_def upt2)
  have x: "?x 0 = Fin 1" "?x (Suc 0) = Fin 1" by (simp_all add: fl_indicator_def)
  have P0: "fl_matvec ieee 2 ?P ?x 0 = Fin huge"
    using hz by (simp add: fl_matvec_def upt2 dense_def ieee_ops x round64_huge)
  have P1: "fl_matvec ieee 2 ?P ?x (Suc 0) = Fin huge"
    using hz by (simp add: fl_matvec_def upt2 dense_def ieee_ops x round64_huge)
  have num: "fl_dot ieee 2 ?x (fl_matvec ieee 2 ?P ?x) = PosInf"
    by (simp add: fl_dot_def upt2 P0 P1 x ieee_ops round64_huge round64_twice_huge)
  have I0: "fl_matvec ieee 2 (identity 2) ?x 0 = Fin 1"
    by (simp add: fl_matvec_def upt2 identity_def ieee_ops x round64_small)
  have I1: "fl_matvec ieee 2 (identity 2) ?x (Suc 0) = Fin 1"
    by (simp add: fl_matvec_def upt2 identity_def ieee_ops x round64_small)
  have den: "fl_den ieee 2 (identity 2) (fl_greedy_init ieee ?A) = Fin 2"
    by (simp add: fl_den_def nodes fl_dot_def upt2 I0 I1 x ieee_ops round64_small)
  have best0: "fl_best_score (fl_greedy_init ieee ?A) = NegInf"
    by (simp add: fl_greedy_init_def)
  have score: "fdiv ieee (fmul ieee (Fin (1 / 2)) PosInf) (Fin 2) = PosInf"
    by (simp add: ieee_ops inf_of_def)
  show ?thesis
    by (simp add: fl_record_score_def Let_def nodes num den best0 score)
qed

text \<open>
  The original claim C9 fails on finite input: for \<open>P\<close> with the two entries \<open>2\<^sup>1\<^sup>0\<^sup>2\<^sup>3\<close>
  (a finite float64) and \<open>Q = I\<close>, the numerator \<open>x\<^sup>T P x\<close> overflows, the denominator is 2,
  and the engine returns \<open>best_score = +\<infinity>\<close>.
\<close>

theorem fl_greedy_overflow_counterexample:
  "fst (fl_greedy ieee (dense [[0, 1], [1, 0]]) (dense [[0, huge], [huge, 0]]) (identity 2)) = PosInf"
proof -
  let ?P = "dense [[0, huge], [huge, 0]]" and ?A = "dense [[0, 1], [1, 0]]"
  let ?st0 = "fl_greedy_init ieee ?A"
  define st1 where "st1 = fl_record_score ieee (dim ?A) ?P (identity 2) ?st0"
  have d: "dim ?A = 2" by (simp add: dense_def)
  have b1: "fl_best_score st1 = PosInf"
    unfolding st1_def d by (rule overflow_first_pass)
  have ne: "fl_nodes ?st0 \<noteq> []" by (simp add: fl_greedy_init_def dense_def)
  have keep: "fl_best_score (fl_greedy_loop ieee ?A ?P (identity 2) s) = PosInf"
    if "fl_best_score s = PosInf" for s
    by (rule fl_greedy_loop_preserves [where I = "\<lambda>s. s = PosInf", OF _ that])
       (simp add: fl_record_score_PosInf)
  have "fl_best_score (fl_greedy_loop ieee ?A ?P (identity 2) ?st0) = PosInf"
  proof (cases "fl_pop_valid (fl_nodes st1) (fl_heap st1)")
    case None
    then have "fl_greedy_loop ieee ?A ?P (identity 2) ?st0 = st1"
      using ne by (subst fl_greedy_loop.simps) (simp add: st1_def [symmetric])
    with b1 show ?thesis by simp
  next
    case (Some r)
    obtain dg v h where r: "r = ((dg, v), h)" by (metis surj_pair)
    let ?st2 = "fl_remove_vertex ieee ?A v (st1\<lparr>fl_heap := h\<rparr>)"
    have "fl_greedy_loop ieee ?A ?P (identity 2) ?st0 = fl_greedy_loop ieee ?A ?P (identity 2) ?st2"
      using ne Some r by (subst fl_greedy_loop.simps) (simp add: st1_def [symmetric])
    moreover have "fl_best_score ?st2 = PosInf" using b1 by (simp add: fl_best_remove_vertex)
    ultimately show ?thesis using keep by simp
  qed
  then show ?thesis by (simp add: fl_greedy_def Let_def)
qed

section \<open>Charikar peeling against the generic engine in floating-point arithmetic\<close>





section \<open>Properties of the spectral candidate generator\<close>

text \<open>
  Claim C1, as amended. The selector compares the lower-cased method name with the five
  tags \<open>charikar\<close>, \<open>minquotientcut\<close>, \<open>fraudar\<close>, \<open>sparsecutds\<close> and \<open>risk-averse ds\<close>:
  for each of them it returns the pair \<open>(P, Q)\<close> of the variants table without the
  warning (\<open>fraudar\<close> gives \<open>P = A + 2 D\<^sub>w\<close>, \<open>Q = I\<close>), and for every other name it
  prints the warning and returns the plain pair \<open>(A, I)\<close>.
\<close>

theorem select_PQ_recognised:
  "(lower m = ''charikar'' \<longrightarrow> select_PQ (lower m) G A D I_n = (False, A, I_n))
   \<and> (lower m = ''minquotientcut'' \<longrightarrow> select_PQ (lower m) G A D I_n = (False, mat_sub A D, I_n))
   \<and> (lower m = ''fraudar'' \<longrightarrow>
        select_PQ (lower m) G A D I_n = (False, mat_add A (mat_scale 2 (weight_diag G)), I_n))
   \<and> (lower m = ''sparsecutds'' \<longrightarrow>
        select_PQ (lower m) G A D I_n = (False, mat_sub A (mat_scale (2 / 3) D), I_n))
   \<and> (lower m = ''risk-averse ds'' \<longrightarrow>
        select_PQ (lower m) G A D I_n
          = (False, mat_add (maximum0 A) (mat_scale 1 I_n),
             mat_add (maximum0 (mat_neg A)) (mat_scale 1 I_n)))
   \<and> (lower m \<notin> {''charikar'', ''minquotientcut'', ''fraudar'', ''sparsecutds'', ''risk-averse ds''}
        \<longrightarrow> select_PQ (lower m) G A D I_n = (True, A, I_n))"
  by (simp add: select_PQ_def Let_def)

text \<open>The five tags in mixed case, and a name that is not a tag.\<close>

theorem select_PQ_recognised_witness:
  "lower ''Charikar'' = ''charikar''
   \<and> select_PQ (lower ''Charikar'') two_edges two_edges_matrix (diags [2, 2, 1, 1]) (identity 4)
       = (False, two_edges_matrix, identity 4)
   \<and> lower ''MinQuotientCut'' = ''minquotientcut''
   \<and> select_PQ (lower ''MinQuotientCut'') two_edges two_edges_matrix (diags [2, 2, 1, 1]) (identity 4)
       = (False, mat_sub two_edges_matrix (diags [2, 2, 1, 1]), identity 4)
   \<and> lower ''Fraudar'' = ''fraudar''
   \<and> select_PQ (lower ''Fraudar'') two_edges two_edges_matrix (diags [2, 2, 1, 1]) (identity 4)
       = (False, mat_add two_edges_matrix (mat_scale 2 (weight_diag two_edges)), identity 4)
   \<and> lower ''SparseCutDS'' = ''sparsecutds''
   \<and> select_PQ (lower ''SparseCutDS'') two_edges two_edges_matrix (diags [2, 2, 1, 1]) (identity 4)
       = (False, mat_sub two_edges_matrix (mat_scale (2 / 3) (diags [2, 2, 1, 1])), identity 4)
   \<and> lower ''Risk-averse DS'' = ''risk-averse ds''
   \<and> select_PQ (lower ''Risk-averse DS'') two_edges two_edges_matrix (diags [2, 2, 1, 1]) (identity 4)
       = (False, mat_add (maximum0 two_edges_matrix) (mat_scale 1 (identity 4)),
          mat_add (maximum0 (mat_neg two_edges_matrix)) (mat_scale 1 (identity 4)))
   \<and> lower ''TempDS'' \<notin> {''charikar'', ''minquotientcut'', ''fraudar'', ''sparsecutds'', ''risk-averse ds''}
   \<and> select_PQ (lower ''TempDS'') two_edges two_edges_matrix (diags [2, 2, 1, 1]) (identity 4)
       = (True, two_edges_matrix, identity 4)"
proof -
  let ?A = two_edges_matrix and ?D = "diags [2, 2, 1, 1]" and ?I = "identity 4"
  have l1: "lower ''Charikar'' = ''charikar''" by code_simp
  have l2: "lower ''MinQuotientCut'' = ''minquotientcut''" by code_simp
  have l3: "lower ''Fraudar'' = ''fraudar''" by code_simp
  have l4: "lower ''SparseCutDS'' = ''sparsecutds''" by code_simp
  have l5: "lower ''Risk-averse DS'' = ''risk-averse ds''" by code_simp
  have l6: "lower ''TempDS'' \<notin> {''charikar'', ''minquotientcut'', ''fraudar'', ''sparsecutds'', ''risk-averse ds''}"
    by code_simp
  note t = select_PQ_recognised [where G = two_edges and A = ?A and D = ?D and I_n = ?I]
  from t [of "''Charikar''"] l1 have r1: "select_PQ (lower ''Charikar'') two_edges ?A ?D ?I = (False, ?A, ?I)"
    by blast
  from t [of "''MinQuotientCut''"] l2
  have r2: "select_PQ (lower ''MinQuotientCut'') two_edges ?A ?D ?I = (False, mat_sub ?A ?D, ?I)"
    by blast
  from t [of "''Fraudar''"] l3
  have r3: "select_PQ (lower ''Fraudar'') two_edges ?A ?D ?I
              = (False, mat_add ?A (mat_scale 2 (weight_diag two_edges)), ?I)"
    by blast
  from t [of "''SparseCutDS''"] l4
  have r4: "select_PQ (lower ''SparseCutDS'') two_edges ?A ?D ?I
              = (False, mat_sub ?A (mat_scale (2 / 3) ?D), ?I)"
    by blast
  from t [of "''Risk-averse DS''"] l5
  have r5: "select_PQ (lower ''Risk-averse DS'') two_edges ?A ?D ?I
              = (False, mat_add (maximum0 ?A) (mat_scale 1 ?I),
                 mat_add (maximum0 (mat_neg ?A)) (mat_scale 1 ?I))"
    by blast
  from t [of "''TempDS''"] l6
  have r6: "select_PQ (lower ''TempDS'') two_edges ?A ?D ?I = (True, ?A, ?I)"
    by blast
  from l1 r1 l2 r2 l3 r3 l4 r4 l5 r5 l6 r6 show ?thesis by (intro conjI)
qed

text \<open>
  The original claim C1 fails for the name \<open>weighted\<close>: the selector prints the warning and
  returns \<open>P = A\<close>, which differs from \<open>A + 2 D\<^sub>w\<close> (entry \<open>(2, 2)\<close> is 0, not 20).
\<close>

theorem select_PQ_weighted_counterexample:
  "select_PQ (lower ''weighted'') two_edges two_edges_matrix (diags [2, 2, 1, 1]) (identity 4)
     = (True, two_edges_matrix, identity 4)
   \<and> ent two_edges_matrix 2 2 = 0
   \<and> ent (mat_add two_edges_matrix (mat_scale 2 (weight_diag two_edges))) 2 2 = 20"
proof -
  have l: "lower ''weighted'' = ''weighted''" by code_simp
  have a: "select_PQ (lower ''weighted'') two_edges two_edges_matrix (diags [2, 2, 1, 1]) (identity 4)
     = (True, two_edges_matrix, identity 4)"
    unfolding l by (simp add: select_PQ_def)
  have b: "ent two_edges_matrix 2 2 = 0" by code_simp
  have c: "ent (mat_add two_edges_matrix (mat_scale 2 (weight_diag two_edges))) 2 2 = 20"
    by code_simp
  from a b c show ?thesis by (intro conjI)
qed





text \<open>
  The early break against the loop run to completion. Once the running best score has
  reached a bound on every later candidate, the rest of the full loop changes nothing.
\<close>

lemma np_order:
  "np_le s (Fin x) \<Longrightarrow> np_le (Fin x) b \<Longrightarrow> \<not> np_lt b s"
  by (cases s; cases b) auto

lemma full_noop:
  "(\<And>j. i \<le> j \<Longrightarrow> j < k \<Longrightarrow> \<not> np_lt b (fst (cand j)))
     \<Longrightarrow> SpecGreedy_loop_full cand k i S b = (S, b)"
proof (induction "k - i" arbitrary: i)
  case 0
  then show ?case by (subst SpecGreedy_loop_full.simps) simp
next
  case (Suc d)
  then have ik: "i < k" by simp
  have no: "\<not> np_lt b (fst (cand i))" using Suc.prems ik by simp
  have "SpecGreedy_loop_full cand k (i + 1) S b = (S, b)"
  proof (rule Suc.hyps(1))
    show "d = k - (i + 1)" using Suc.hyps(2) by simp
    show "\<not> np_lt b (fst (cand j))" if "i + 1 \<le> j" "j < k" for j
      using Suc.prems that by simp
  qed
  then show ?case
    using ik no by (subst SpecGreedy_loop_full.simps) (simp add: case_prod_beta)
qed

lemma loops_agree:
  assumes bv: "bound_valid cand sigmas k"
  shows "SpecGreedy_loop cand sigmas k i S b = SpecGreedy_loop_full cand k i S b"
proof (induction "k - i" arbitrary: i S b)
  case 0
  then show ?case
    by (subst SpecGreedy_loop.simps, subst SpecGreedy_loop_full.simps) simp
next
  case (Suc d)
  then have ik: "i < k" by simp
  define b1 where "b1 = (if np_lt b (fst (cand i)) then fst (cand i) else b)"
  define S1 where "S1 = (if np_lt b (fst (cand i)) then snd (cand i) else S)"
  have full: "SpecGreedy_loop_full cand k i S b = SpecGreedy_loop_full cand k (i + 1) S1 b1"
    using ik by (subst SpecGreedy_loop_full.simps) (simp add: case_prod_beta b1_def S1_def)
  show ?case
  proof (cases "i + 1 < k \<and> np_le (Fin (sigmas ! (i + 1))) b1")
    case True
    have early: "SpecGreedy_loop cand sigmas k i S b = (S1, b1)"
      using ik True
      by (subst SpecGreedy_loop.simps) (auto simp: case_prod_beta b1_def S1_def split: if_splits)
    have "SpecGreedy_loop_full cand k (i + 1) S1 b1 = (S1, b1)"
    proof (rule full_noop)
      fix j assume j: "i + 1 \<le> j" "j < k"
      have "np_le (fst (cand j)) (Fin (sigmas ! Suc i))"
        using bv ik True j by (auto simp: bound_valid_def)
      moreover have "np_le (Fin (sigmas ! Suc i)) b1" using True by simp
      ultimately show "\<not> np_lt b1 (fst (cand j))" by (rule np_order)
    qed
    with early full show ?thesis by simp
  next
    case False
    have "SpecGreedy_loop cand sigmas k i S b = SpecGreedy_loop cand sigmas k (i + 1) S1 b1"
      using ik False
      by (subst SpecGreedy_loop.simps) (auto simp: case_prod_beta b1_def S1_def)
    moreover have "SpecGreedy_loop cand sigmas k (i + 1) S1 b1
                     = SpecGreedy_loop_full cand k (i + 1) S1 b1"
      by (rule Suc.hyps(1)) (use Suc.hyps(2) in simp)
    ultimately show ?thesis using full by simp
  qed
qed

text \<open>
  Claim C4, as amended. If each singular value \<open>\<sigma>[i+1]\<close> is an upper bound on the score of
  every candidate from iteration \<open>i + 1\<close> on, the loop with the early break returns what the
  loop run to completion returns (the same \<open>best_score\<close> and the same \<open>S\<close>).
\<close>

theorem early_break_sound:
  "bound_valid cand sigmas k \<Longrightarrow>
     SpecGreedy_loop cand sigmas k 0 [] (Fin 0) = SpecGreedy_loop_full cand k 0 [] (Fin 0)"
  by (rule loops_agree)

text \<open>
  The claim for the plain density on the graph of two disjoint edges: the candidates score
  1, 1 and 1/2 against the singular values 2, 2, 1.
\<close>

theorem early_break_sound_witness:
  "bound_valid (candidate greedy two_edges_matrix two_edges_matrix (identity 4)
       [[1, 0, 0], [0, 1, 0], [0, 0, 1], [0, 0, 0]] [[0, 1, 0, 0], [1, 0, 0, 0], [0, 0, 0, 1]])
     [2, 2, 1] 3
   \<and> SpecGreedy_loop (candidate greedy two_edges_matrix two_edges_matrix (identity 4)
       [[1, 0, 0], [0, 1, 0], [0, 0, 1], [0, 0, 0]] [[0, 1, 0, 0], [1, 0, 0, 0], [0, 0, 0, 1]])
       [2, 2, 1] 3 0 [] (Fin 0)
     = SpecGreedy_loop_full (candidate greedy two_edges_matrix two_edges_matrix (identity 4)
       [[1, 0, 0], [0, 1, 0], [0, 0, 1], [0, 0, 0]] [[0, 1, 0, 0], [1, 0, 0, 0], [0, 0, 0, 1]])
       3 0 [] (Fin 0)
   \<and> SpecGreedy_loop_full (candidate greedy two_edges_matrix two_edges_matrix (identity 4)
       [[1, 0, 0], [0, 1, 0], [0, 0, 1], [0, 0, 0]] [[0, 1, 0, 0], [1, 0, 0, 0], [0, 0, 0, 1]])
       3 0 [] (Fin 0) = ([0, 1], Fin 1)"
proof -
  let ?c = "candidate greedy two_edges_matrix two_edges_matrix (identity 4)
       [[1, 0, 0], [0, 1, 0], [0, 0, 1], [0, 0, 0]] [[0, 1, 0, 0], [1, 0, 0, 0], [0, 0, 0, 1]]"
  have bv: "bound_valid ?c [2, 2, 1] 3" by code_simp
  have f: "SpecGreedy_loop_full ?c 3 0 [] (Fin 0) = ([0, 1], Fin 1)" by code_simp
  from early_break_sound [OF bv] bv f show ?thesis by (intro conjI)
qed

text \<open>
  The original claim C4 fails for the method \<open>fraudar\<close> on the same graph with node weights
  0, 0, 10, 10: the triplets are the leading singular triplets of \<open>A\<close>, the loop breaks after
  iteration 1 with \<open>best_score = 1 \<ge> \<sigma>[2] = 1\<close>, and the third candidate, which the full
  loop does reach, scores 21/2.
\<close>

theorem early_break_counterexample:
  "leading_triplets two_edges_matrix
       [[1, 0, 0], [0, 1, 0], [0, 0, 1], [0, 0, 0]] [2, 2, 1] [[0, 1, 0, 0], [1, 0, 0, 0], [0, 0, 0, 1]]
   \<and> SpecGreedy two_edges_svds greedy dec_int dec_float two_edges_file 3 ''Fraudar''
       = Inr (PyList [0, 1], PyFloat (Fin 1))
   \<and> SpecGreedy_loop
        (candidate greedy two_edges_matrix
           (mat_add two_edges_matrix (mat_scale 2 (weight_diag two_edges))) (identity 4)
           [[1, 0, 0], [0, 1, 0], [0, 0, 1], [0, 0, 0]] [[0, 1, 0, 0], [1, 0, 0, 0], [0, 0, 0, 1]])
        [2, 2, 1] 3 0 [] (Fin 0) = ([0, 1], Fin 1)
   \<and> SpecGreedy_loop_full
        (candidate greedy two_edges_matrix
           (mat_add two_edges_matrix (mat_scale 2 (weight_diag two_edges))) (identity 4)
           [[1, 0, 0], [0, 1, 0], [0, 0, 1], [0, 0, 0]] [[0, 1, 0, 0], [1, 0, 0, 0], [0, 0, 0, 1]])
        3 0 [] (Fin 0) = ([0, 1], Fin (21 / 2))"
proof -
  let ?U = "[[1, 0, 0], [0, 1, 0], [0, 0, 1], [0, 0, 0::real]]"
  let ?Vt = "[[0, 1, 0, 0], [1, 0, 0, 0], [0, 0, 0, 1::real]]"
  let ?c = "candidate greedy two_edges_matrix
           (mat_add two_edges_matrix (mat_scale 2 (weight_diag two_edges))) (identity 4) ?U ?Vt"
  have a: "leading_triplets two_edges_matrix ?U [2, 2, 1] ?Vt" by code_simp
  have b: "SpecGreedy two_edges_svds greedy dec_int dec_float two_edges_file 3 ''Fraudar''
       = Inr (PyList [0, 1], PyFloat (Fin 1))" by code_simp
  have c: "SpecGreedy_loop ?c [2, 2, 1] 3 0 [] (Fin 0) = ([0, 1], Fin 1)" by code_simp
  have d: "SpecGreedy_loop_full ?c 3 0 [] (Fin 0) = ([0, 1], Fin (21 / 2))" by code_simp
  from a b c d show ?thesis by (intro conjI)
qed

end
